theory Spec2Isabelle
  imports Main
begin

section \<open>JavaScript strings and exceptions\<close>

text \<open>
  The development follows the most recent revision of each script of the extension: the
  content script with persisted history, warning banners and the manual retry button, and the
  background script that prepends \<open>GPT_SYSTEM_PROMPT\<close>.

  A JavaScript string is a sequence of UTF-16 code units; a code unit is modelled by its
  number. \<open>js\<close> turns an ASCII literal into such a sequence.
\<close>

type_synonym jsstring = "nat list"

definition js :: "string \<Rightarrow> jsstring" where
  "js s = map of_char s"

datatype error = TypeError | SyntaxError

text \<open>A value that may be \<open>undefined\<close> or \<open>null\<close> is an option; the empty string is falsy too.\<close>

definition truthy :: "jsstring option \<Rightarrow> bool" where
  "truthy v = (case v of None \<Rightarrow> False | Some s \<Rightarrow> s \<noteq> [])"

fun strip_prefix :: "jsstring \<Rightarrow> jsstring \<Rightarrow> jsstring option" where
  "strip_prefix [] s = Some s"
| "strip_prefix (p # ps) [] = None"
| "strip_prefix (p # ps) (c # cs) = (if p = c then strip_prefix ps cs else None)"

definition startsWith :: "jsstring \<Rightarrow> jsstring \<Rightarrow> bool" where
  "startsWith s p = (strip_prefix p s \<noteq> None)"

section \<open>Text normalizer: \<open>cleanText\<close>\<close>

text \<open>
  \<^verbatim>\<open>function cleanText(text) { return text.replace(/\d+\s*\/\s*\d+$/, '').trim(); }\<close>

  \<open>\d\<close> is an ASCII digit; \<open>\s\<close> and \<open>trim\<close> use the same set, the WhiteSpace and
  LineTerminator code points of ECMAScript.
\<close>

definition is_digit :: "nat \<Rightarrow> bool" where
  "is_digit c \<longleftrightarrow> 48 \<le> c \<and> c \<le> 57"

definition is_space :: "nat \<Rightarrow> bool" where
  "is_space c \<longleftrightarrow>
     c \<in> {9, 10, 11, 12, 13, 32, 160, 5760, 8232, 8233, 8239, 8287, 12288, 65279}
     \<or> (8192 \<le> c \<and> c \<le> 8202)"

text \<open>
  \<open>match_marker s\<close>: the pattern \<open>\d+\s*\/\s*\d+$\<close> matches at the start of \<open>s\<close>. There is no
  \<open>m\<close> flag, so \<open>$\<close> is the end of the input and the match must consume all of \<open>s\<close>. Digits,
  white space and the slash (code unit 47) are disjoint classes, so the greedy quantifiers
  never have to give back a character: the match is decided by one pass.
\<close>

definition match_marker :: "jsstring \<Rightarrow> bool" where
  "match_marker s =
     (let r1 = dropWhile is_digit s;
          r2 = dropWhile is_space r1
      in takeWhile is_digit s \<noteq> [] \<and>
         (case r2 of
            [] \<Rightarrow> False
          | c # r3 \<Rightarrow> c = 47 \<and>
              (let r4 = dropWhile is_space r3
               in r4 \<noteq> [] \<and> list_all is_digit r4)))"

text \<open>
  \<open>replace\<close> with a regular expression without the \<open>g\<close> flag rewrites the leftmost match
  only: the start positions are tried from left to right, and at the first one where the
  pattern matches, the match (here: the rest of the input) is replaced by the empty string.
\<close>

fun replace_marker :: "jsstring \<Rightarrow> jsstring" where
  "replace_marker [] = []"
| "replace_marker (c # cs) = (if match_marker (c # cs) then [] else c # replace_marker cs)"

definition trim :: "jsstring \<Rightarrow> jsstring" where
  "trim s = rev (dropWhile is_space (rev (dropWhile is_space s)))"

definition cleanText :: "jsstring \<Rightarrow> jsstring" where
  "cleanText text = trim (replace_marker text)"

text \<open>Neither end of the string is white space.\<close>

definition trimmed :: "jsstring \<Rightarrow> bool" where
  "trimmed s \<longleftrightarrow> s = [] \<or> (\<not> is_space (hd s) \<and> \<not> is_space (last s))"

text \<open>Some suffix of the string is a pagination marker, that is, the string ends with one.\<close>

fun ends_with_marker :: "jsstring \<Rightarrow> bool" where
  "ends_with_marker [] = False"
| "ends_with_marker (c # cs) = (match_marker (c # cs) \<or> ends_with_marker cs)"

section \<open>Censorship classifier: \<open>isCensored\<close>\<close>

text \<open>
  \<^verbatim>\<open>const censorshipRegex = /\b(sorry|apologies|...|try again later)\b/i;\<close>
  \<^verbatim>\<open>function isCensored(responseText) { return censorshipRegex.test(responseText); }\<close>

  \<open>\w\<close> is \<open>[A-Za-z0-9_]\<close>. Under the \<open>i\<close> flag (without \<open>u\<close>) two code units match when
  their upper-case forms agree, and a code unit outside ASCII is never identified with an
  ASCII one; every phrase is ASCII, so folding the ASCII letters is exact.
\<close>

definition is_word_char :: "nat \<Rightarrow> bool" where
  "is_word_char c \<longleftrightarrow>
     (48 \<le> c \<and> c \<le> 57) \<or> (65 \<le> c \<and> c \<le> 90) \<or> c = 95 \<or> (97 \<le> c \<and> c \<le> 122)"

definition canonicalize :: "nat \<Rightarrow> nat" where
  "canonicalize c = (if 97 \<le> c \<and> c \<le> 122 then c - 32 else c)"

definition censorshipPhrases :: "string list" where
  "censorshipPhrases =
     [''sorry'', ''apologies'', ''unfortunately'', ''i cannot'', ''i can't'', ''i am unable'',
      ''beyond my scope'', ''restricted'', ''not allowed'', ''not permitted'', ''cannot discuss'',
      ''not within my capabilities'', ''sensitive topic'', ''refer to official sources'',
      ''ethical guidelines'', ''compliance requirements'', ''content restrictions'',
      ''safety concerns'', ''security reasons'', ''not supported'', ''The server is busy'',
      ''try again later'']"

text \<open>
  \<open>word_boundary prev rest\<close> is \<open>\b\<close> at the position whose left neighbour is \<open>prev\<close>
  (\<open>None\<close> at the start of the input) and whose right neighbour is the head of \<open>rest\<close>.
\<close>

definition word_boundary :: "nat option \<Rightarrow> jsstring \<Rightarrow> bool" where
  "word_boundary prev rest =
     ((case prev of None \<Rightarrow> False | Some c \<Rightarrow> is_word_char c)
      \<noteq> (case rest of [] \<Rightarrow> False | c # _ \<Rightarrow> is_word_char c))"

text \<open>Matching one phrase: the result is the last code unit consumed and the remaining input.\<close>

fun match_phrase :: "nat option \<Rightarrow> jsstring \<Rightarrow> jsstring \<Rightarrow> (nat option \<times> jsstring) option" where
  "match_phrase prev [] s = Some (prev, s)"
| "match_phrase prev (p # ps) [] = None"
| "match_phrase prev (p # ps) (c # cs) =
     (if canonicalize p = canonicalize c then match_phrase (Some c) ps cs else None)"

definition regex_here :: "nat option \<Rightarrow> jsstring \<Rightarrow> bool" where
  "regex_here prev s =
     (word_boundary prev s \<and>
      list_ex (\<lambda>p. case match_phrase prev (js p) s of
                      None \<Rightarrow> False
                    | Some (l, rest) \<Rightarrow> word_boundary l rest) censorshipPhrases)"

fun regex_search :: "nat option \<Rightarrow> jsstring \<Rightarrow> bool" where
  "regex_search prev [] = regex_here prev []"
| "regex_search prev (c # cs) = (regex_here prev (c # cs) \<or> regex_search (Some c) cs)"

definition isCensored :: "jsstring \<Rightarrow> bool" where
  "isCensored responseText = regex_search None responseText"

section \<open>Messages\<close>

text \<open>\<^verbatim>\<open>{ role, content, censored? }\<close>; only assistant messages carry \<open>censored\<close>.\<close>

datatype role = User | Assistant | System | Developer

record message =
  role :: role
  content :: jsstring
  censored :: "bool option"

section \<open>Remote side: the \<open>checkCensorship\<close> listener of the background script\<close>

text \<open>
  The request sent by the content script, \<^verbatim>\<open>{ action, content, history, manual }\<close>, and the
  configuration read with \<^verbatim>\<open>chrome.storage.local.get(["openai_api_key", "openai_model"], ...)\<close>.
\<close>

record request =
  req_action :: jsstring
  req_content :: jsstring
  req_history :: "message list"
  req_manual :: bool

record config =
  openai_api_key :: "jsstring option"
  openai_model :: "jsstring option"

text \<open>
  The external rewrite call, \<^verbatim>\<open>fetch("https://api.openai.com/v1/chat/completions", ...)\<close>: the
  bearer credential and the two fields of the JSON body.
\<close>

record fetch_request =
  authorization_bearer :: jsstring
  body_model :: jsstring
  body_messages :: "message list"

text \<open>
  What the provider makes of it. \<open>Rejected\<close>: the promise chain rejects before \<open>data\<close> is at
  hand (network failure, a body that is not JSON). \<open>Resolved cs\<close>: \<open>data.choices\<close> is \<open>cs\<close>
  (\<open>None\<close> when the field is missing, as in the error bodies of non-2xx answers). A choice
  without a \<open>message\<close> is \<open>NoMessage\<close>; \<open>Message c\<close> carries \<open>message.content\<close>.
\<close>

datatype choice = NoMessage | Message "jsstring option"

datatype fetch_result = Rejected | Resolved "choice list option"

record response =
  replacement :: "jsstring option"

text \<open>
  The outcome of the listener: the external call it issued, if any; the argument of
  \<open>sendResponse\<close>, or \<open>None\<close> when \<open>sendResponse\<close> is never called; the exception that
  escaped the storage callback, if any.
\<close>

record outcome =
  fetched :: "fetch_request option"
  sent :: "response option"
  thrown :: "error option"

definition DEFAULT_OPENAI_MODEL :: jsstring where
  "DEFAULT_OPENAI_MODEL = js ''gpt-3.5-turbo''"

text \<open>
  The text of \<open>GPT_SYSTEM_PROMPT\<close> (forty lines of instructions in the source) is not
  reproduced: the listener takes it as its first argument, so every result below holds for
  the text in the source. The second argument is the stored configuration, the third the
  provider. In the \<open>then\<close> callback, \<open>data.choices[0].message.content\<close> throws on a choice
  without a message; the \<open>catch\<close> of the chain answers for it.
\<close>

definition checkCensorship ::
  "jsstring \<Rightarrow> config \<Rightarrow> (fetch_request \<Rightarrow> fetch_result) \<Rightarrow> request \<Rightarrow> outcome" where
  "checkCensorship GPT_SYSTEM_PROMPT result fetch request =
     (if req_action request \<noteq> js ''checkCensorship''
      then \<lparr>fetched = None, sent = None, thrown = None\<rparr>
      else
        let apiKey = openai_api_key result;
            openaiModel = (case openai_model result of
                             None \<Rightarrow> DEFAULT_OPENAI_MODEL
                           | Some m \<Rightarrow> if m = [] then DEFAULT_OPENAI_MODEL else m)
        in case apiKey of
             None \<Rightarrow>
               \<lparr>fetched = None,
                sent = Some \<lparr>replacement =
                  Some (js ''Error: No OpenAI API key set. Skipping censorship bypass.'')\<rparr>,
                thrown = None\<rparr>
           | Some key \<Rightarrow>
               if key = [] then
                 \<lparr>fetched = None,
                  sent = Some \<lparr>replacement =
                    Some (js ''Error: No OpenAI API key set. Skipping censorship bypass.'')\<rparr>,
                  thrown = None\<rparr>
               else if req_history request = [] then
                 \<lparr>fetched = None, sent = None, thrown = Some TypeError\<rparr>
               else
                 let assistantPrompt = content (last (req_history request));
                     messages =
                       \<lparr>role = (if startsWith openaiModel (js ''o3'') then Developer else System),
                        content = GPT_SYSTEM_PROMPT,
                        censored = None\<rparr> # butlast (req_history request)
                 in if isCensored assistantPrompt then
                      let call = \<lparr>authorization_bearer = key, body_model = openaiModel,
                                  body_messages = messages\<rparr>
                      in \<lparr>fetched = Some call,
                          sent = Some \<lparr>replacement =
                            (case fetch call of
                               Rejected \<Rightarrow> Some (js ''Error: OpenAI API request failed.'')
                             | Resolved None \<Rightarrow>
                                 Some (js ''Error: Unable to fetch a response from GPT.'')
                             | Resolved (Some []) \<Rightarrow>
                                 Some (js ''Error: Unable to fetch a response from GPT.'')
                             | Resolved (Some (NoMessage # _)) \<Rightarrow>
                                 Some (js ''Error: OpenAI API request failed.'')
                             | Resolved (Some (Message c # _)) \<Rightarrow> c)\<rparr>,
                          thrown = None\<rparr>
                    else
                      \<lparr>fetched = None,
                       sent = Some \<lparr>replacement = Some assistantPrompt\<rparr>,
                       thrown = None\<rparr>)"

section \<open>Conversation history store\<close>

text \<open>
  \<^verbatim>\<open>window.location.pathname.match(/\/chat\/s\/([a-f0-9-]+)/)\<close>: the leftmost position at which
  \<open>/chat/s/\<close> is followed by at least one character of \<open>[a-f0-9-]\<close>; the group takes the
  longest run of them. The pathname is an argument of the model.
\<close>

definition is_id_char :: "nat \<Rightarrow> bool" where
  "is_id_char c \<longleftrightarrow> (97 \<le> c \<and> c \<le> 102) \<or> (48 \<le> c \<and> c \<le> 57) \<or> c = 45"

fun getChatIdFromUrl :: "jsstring \<Rightarrow> jsstring option" where
  "getChatIdFromUrl [] = None"
| "getChatIdFromUrl (c # cs) =
     (case strip_prefix (js ''/chat/s/'') (c # cs) of
        None \<Rightarrow> getChatIdFromUrl cs
      | Some rest \<Rightarrow>
          if takeWhile is_id_char rest \<noteq> [] then Some (takeWhile is_id_char rest)
          else getChatIdFromUrl cs)"

text \<open>
  The item of \<open>localStorage\<close> under the key \<open>deepseek_bypass\<close>, as \<open>JSON.parse\<close> sees it:
  no item (\<open>getItem\<close> returns \<open>null\<close>, which parses to \<open>null\<close>), a string that is not JSON
  (\<open>JSON.parse\<close> throws a \<open>SyntaxError\<close>), or the mapping from conversation ids to message
  lists that \<open>JSON.stringify\<close> wrote. \<open>JSON.parse (JSON.stringify chats)\<close> is \<open>chats\<close> for such a
  mapping, so the model keeps the mapping itself.
\<close>

datatype item = NoItem | Unparseable | Chats "jsstring \<rightharpoonup> message list"

text \<open>\<^verbatim>\<open>JSON.parse(localStorage.getItem(LOCAL_STORAGE_KEY)) || {}\<close>\<close>

definition parse_chats :: "item \<Rightarrow> error + (jsstring \<rightharpoonup> message list)" where
  "parse_chats it =
     (case it of
        NoItem \<Rightarrow> Inr Map.empty
      | Unparseable \<Rightarrow> Inl SyntaxError
      | Chats chats \<Rightarrow> Inr chats)"

text \<open>
  \<^verbatim>\<open>chats[chatId] = messages\<close> creates or overwrites the property of the object itself. The
  one name whose assignment does something else is \<open>__proto__\<close>, and the id of
  \<open>getChatIdFromUrl\<close> has no underscore.
\<close>

definition saveHistory :: "jsstring \<Rightarrow> message list \<Rightarrow> item \<Rightarrow> error + item" where
  "saveHistory pathname messages it =
     (case getChatIdFromUrl pathname of
        None \<Rightarrow> Inr it
      | Some chatId \<Rightarrow>
          (case parse_chats it of
             Inl e \<Rightarrow> Inl e
           | Inr chats \<Rightarrow> Inr (Chats (chats(chatId \<mapsto> messages)))))"

text \<open>
  \<^verbatim>\<open>if (!chatId) return [];\<close>
  \<^verbatim>\<open>const chats = JSON.parse(localStorage.getItem(LOCAL_STORAGE_KEY)) || {};\<close>
  \<^verbatim>\<open>return chats[chatId] || [];\<close>

  \<open>chats\<close> is an ordinary object, so \<open>chats[chatId]\<close> reads the property of that name of the
  object itself and, when it has none, the property that every object inherits from
  \<open>Object.prototype\<close>. The inherited values are functions, and for \<open>__proto__\<close> the prototype
  object: all of them truthy, so they are what \<open>restoreHistory\<close> returns then. The result is
  the message list found or defaulted (\<open>History\<close>), or the value inherited under the name
  (\<open>Inherited\<close>).
\<close>

definition Object_prototype :: "string list" where
  "Object_prototype =
     [''constructor'', ''hasOwnProperty'', ''isPrototypeOf'', ''propertyIsEnumerable'',
      ''toLocaleString'', ''toString'', ''valueOf'', ''__proto__'',
      ''__defineGetter__'', ''__defineSetter__'', ''__lookupGetter__'', ''__lookupSetter__'']"

definition inherited :: "jsstring \<Rightarrow> bool" where
  "inherited c \<longleftrightarrow> c \<in> set (map js Object_prototype)"

datatype restored = History "message list" | Inherited jsstring

definition restoreHistory :: "jsstring option \<Rightarrow> item \<Rightarrow> error + restored" where
  "restoreHistory chatId it =
     (case chatId of
        None \<Rightarrow> Inr (History [])
      | Some c \<Rightarrow>
          if c = [] then Inr (History [])
          else (case parse_chats it of
                  Inl e \<Rightarrow> Inl e
                | Inr chats \<Rightarrow>
                    (case chats c of
                       Some ms \<Rightarrow> Inr (History ms)
                     | None \<Rightarrow> if inherited c then Inr (Inherited c) else Inr (History []))))"


section \<open>The rendered page\<close>

text \<open>
  A DOM node is an element with its class list and child nodes, or a text node. Tag names,
  attributes other than \<open>class\<close> and styles play no part in the scripts' decisions.
\<close>

datatype node = Elem "string list" "node list" | TextNode jsstring

fun has_class :: "string \<Rightarrow> node \<Rightarrow> bool" where
  "has_class c (Elem cs ks) = (c \<in> set cs)"
| "has_class c (TextNode s) = False"

fun is_element :: "node \<Rightarrow> bool" where
  "is_element (Elem cs ks) = True"
| "is_element (TextNode s) = False"

fun childNodes :: "node \<Rightarrow> node list" where
  "childNodes (Elem cs ks) = ks"
| "childNodes (TextNode s) = []"

fun textContent :: "node \<Rightarrow> jsstring" where
  "textContent (TextNode s) = s"
| "textContent (Elem cs ks) = concat (map textContent ks)"

definition firstElementChild :: "node list \<Rightarrow> node option" where
  "firstElementChild ks = find is_element ks"

text \<open>
  \<open>querySelector c ns\<close> is \<^verbatim>\<open>parent.querySelector(`.${c}`)\<close> for a parent with children \<open>ns\<close>:
  the first element with class \<open>c\<close> among the descendants, in document order.
  \<open>count_class\<close> counts all of them, and \<open>remove_first\<close> is the forest after
  \<^verbatim>\<open>parent.querySelector(`.${c}`).remove()\<close> (unchanged when there is no such element).
\<close>

fun querySelector :: "string \<Rightarrow> node list \<Rightarrow> node option" where
  "querySelector c [] = None"
| "querySelector c (TextNode s # ns) = querySelector c ns"
| "querySelector c (Elem cs ks # ns) =
     (if c \<in> set cs then Some (Elem cs ks)
      else (case querySelector c ks of
              Some e \<Rightarrow> Some e
            | None \<Rightarrow> querySelector c ns))"

fun count_class :: "string \<Rightarrow> node list \<Rightarrow> nat" where
  "count_class c [] = 0"
| "count_class c (TextNode s # ns) = count_class c ns"
| "count_class c (Elem cs ks # ns) =
     (if c \<in> set cs then 1 else 0) + count_class c ks + count_class c ns"

fun remove_first :: "string \<Rightarrow> node list \<Rightarrow> node list" where
  "remove_first c [] = []"
| "remove_first c (TextNode s # ns) = TextNode s # remove_first c ns"
| "remove_first c (Elem cs ks # ns) =
     (if c \<in> set cs then ns
      else if querySelector c ks \<noteq> None then Elem cs (remove_first c ks) # ns
      else Elem cs ks # remove_first c ns)"

text \<open>
  \<open>innerText\<close>: the getter is modelled by the concatenated text of the subtree (the browser
  adds line breaks that depend on the style sheet); the setter replaces the children by one
  text node, or by nothing for the empty string. \<open>innerHTML\<close> is modelled by the child nodes
  themselves: reading it and assigning the value back restores them.
\<close>

definition innerText_of :: "node list \<Rightarrow> jsstring" where
  "innerText_of ks = concat (map textContent ks)"

definition set_innerText :: "jsstring \<Rightarrow> node list" where
  "set_innerText s = (if s = [] then [] else [TextNode s])"

definition chatBubbleSelector :: "string list" where
  "chatBubbleSelector = [''ds-markdown'', ''ds-markdown--block'']"

definition CSS_CENSORED_WARNING_CLASS :: string where
  "CSS_CENSORED_WARNING_CLASS = ''warning-censored''"

definition ACTION_ICON_IDENTITY_CLASS :: string where
  "ACTION_ICON_IDENTITY_CLASS = ''external-regenerate''"

text \<open>
  One rendered turn: a chat bubble (an element selected by \<open>chatBubbleSelector\<close>) seen from
  its parent. \<open>before\<close> and \<open>after\<close> are the bubble's siblings inside the parent, \<open>inner\<close> its
  child nodes, \<open>userRow\<close> the parent's \<open>previousElementSibling\<close>, whose first element child
  shows the user's message. The page is the list of its turns in document order, as
  \<^verbatim>\<open>document.getElementsByClassName(chatBubbleSelector.join(" "))\<close> returns them; every bubble
  has a parent of its own, and its class list is \<open>chatBubbleSelector\<close>.
\<close>

record turn =
  userRow :: "node option"
  before :: "node list"
  inner :: "node list"
  after :: "node list"

definition bubble :: "turn \<Rightarrow> node" where
  "bubble t = Elem chatBubbleSelector (inner t)"

definition parent_children :: "turn \<Rightarrow> node list" where
  "parent_children t = before t @ [bubble t] @ after t"

text \<open>The number of banner nodes in the turn's container.\<close>

definition banners :: "turn \<Rightarrow> nat" where
  "banners t = count_class CSS_CENSORED_WARNING_CLASS (parent_children t)"

subsection \<open>\<open>showWarning\<close>, \<open>hideWarning\<close>, \<open>hasCensorshipWarning\<close>\<close>

text \<open>The banner created by \<open>showWarning\<close>; its text starts with U+26A0 U+FE0F.\<close>

definition warning :: node where
  "warning = Elem [CSS_CENSORED_WARNING_CLASS]
     [TextNode (9888 # 65039 #
        js '' Original response was restricted. This version is AI-enhanced.'')]"

text \<open>
  \<^verbatim>\<open>if (!el.parentNode.querySelector(`.${CSS_CENSORED_WARNING_CLASS}`))\<close>
  \<^verbatim>\<open>    el.parentNode.insertBefore(warning, el);\<close>
\<close>

definition showWarning :: "turn \<Rightarrow> turn" where
  "showWarning t =
     (if querySelector CSS_CENSORED_WARNING_CLASS (parent_children t) = None
      then t\<lparr>before := before t @ [warning]\<rparr>
      else t)"

text \<open>
  \<^verbatim>\<open>const censoredMessage = el.parentNode.querySelector(`.${CSS_CENSORED_WARNING_CLASS}`);\<close>
  \<^verbatim>\<open>if (censoredMessage) censoredMessage.remove();\<close>
  The first banner in document order lies before the bubble, inside it or after it (the
  bubble itself does not carry the class).
\<close>

definition hideWarning :: "turn \<Rightarrow> turn" where
  "hideWarning t =
     (if querySelector CSS_CENSORED_WARNING_CLASS (before t) \<noteq> None
      then t\<lparr>before := remove_first CSS_CENSORED_WARNING_CLASS (before t)\<rparr>
      else if querySelector CSS_CENSORED_WARNING_CLASS (inner t) \<noteq> None
      then t\<lparr>inner := remove_first CSS_CENSORED_WARNING_CLASS (inner t)\<rparr>
      else t\<lparr>after := remove_first CSS_CENSORED_WARNING_CLASS (after t)\<rparr>)"

text \<open>
  \<open>hasCensorshipWarning el manual\<close>: a truthy \<open>manual\<close> is returned as it is; otherwise the
  previous sibling is inspected, then the whole parent.
\<close>

definition hasCensorshipWarning :: "turn \<Rightarrow> bool option \<Rightarrow> bool" where
  "hasCensorshipWarning t manual_flag =
     (if manual_flag = Some True then True
      else if before t \<noteq> [] \<and> has_class CSS_CENSORED_WARNING_CLASS (last (before t)) then True
      else querySelector CSS_CENSORED_WARNING_CLASS (parent_children t) \<noteq> None)"

subsection \<open>The retry button\<close>

text \<open>The element built by \<open>createExternalAiButton\<close>: an icon holder around an \<open>svg\<close> with one path.\<close>

definition createExternalAiButton :: node where
  "createExternalAiButton =
     Elem [''ds-icon-button'', ACTION_ICON_IDENTITY_CLASS]
       [TextNode (10 # replicate 8 32),
        Elem [''ds-icon'']
          [TextNode (10 # replicate 12 32),
           Elem [] [TextNode (10 # replicate 16 32), Elem [] [], TextNode (10 # replicate 12 32)],
           TextNode (10 # replicate 8 32)],
        TextNode (10 # replicate 4 32)]"

text \<open>\<open>append_to_first_element b ks\<close>: \<open>b\<close> appended to the first element child among \<open>ks\<close>.\<close>

fun append_to_first_element :: "node \<Rightarrow> node list \<Rightarrow> node list" where
  "append_to_first_element b [] = []"
| "append_to_first_element b (TextNode s # ns) = TextNode s # append_to_first_element b ns"
| "append_to_first_element b (Elem cs ks # ns) = Elem cs (ks @ [b]) # ns"

text \<open>
  \<^verbatim>\<open>if (!el.nextSibling.getElementsByClassName(ACTION_ICON_IDENTITY_CLASS).length) {\<close>
  \<^verbatim>\<open>    const actionsContainer = el.nextElementSibling.firstElementChild;\<close>
  \<^verbatim>\<open>    if (actionsContainer) { ...; actionsContainer.appendChild(gptButton); } }\<close>
  Without a next sibling, or with a text node there, the first line throws a \<open>TypeError\<close>.
\<close>

definition appendExternalAiButton :: "turn \<Rightarrow> error + turn" where
  "appendExternalAiButton t =
     (case after t of
        [] \<Rightarrow> Inl TypeError
      | TextNode s # rest \<Rightarrow> Inl TypeError
      | Elem cs ks # rest \<Rightarrow>
          if querySelector ACTION_ICON_IDENTITY_CLASS ks \<noteq> None then Inr t
          else Inr (t\<lparr>after := Elem cs (append_to_first_element createExternalAiButton ks) # rest\<rparr>))"

section \<open>Reconciliation controller: the \<open>message\<close> listener of the content script\<close>

text \<open>
  The state the listener works on: the rendered turns, \<open>window.location.pathname\<close> and the
  item of \<open>localStorage\<close>.
\<close>

record page =
  turns :: "turn list"
  location_pathname :: jsstring
  storage_item :: item

subsection \<open>The value posted under \<open>index\<close>\<close>

text \<open>
  The data of the event are a structured clone of what the sender posted. The retry button
  posts the position of its bubble and the network hook posts no \<open>index\<close>, but any script
  of the page can post the event too, with any value that can be cloned.

  A Number is \<open>NaN\<close>, an infinity, or finite: \<open>Finite m e\<close> is the number \<open>m * 2 ^ e\<close>, and
  every finite double has this form with \<open>\<bar>m\<bar> < 2 ^ 53\<close>. The two zeros are not told
  apart: \<open>0 + 1\<close> and \<open>-0 + 1\<close> are both \<open>1\<close>.
\<close>

datatype number = NaN | PosInfinity | NegInfinity | Finite int int

datatype primitive =
    Undefined
  | Null
  | Boolean bool
  | Number number
  | BigInt int
  | String jsstring

text \<open>
  An object (a plain object, an array, a date, a wrapper of a primitive, ...) is used by
  the listener in \<open>index + 1\<close> only, which starts by converting it with \<open>ToPrimitive\<close>: the
  \<open>valueOf\<close> and \<open>toString\<close> of the built-in prototypes give a primitive, for instance \<open>""\<close>
  for \<open>[]\<close> and \<open>"[object Object]"\<close> for \<open>{}\<close>. \<open>Object p\<close> is an object that is converted
  to \<open>p\<close>.
\<close>

datatype jsvalue = Primitive primitive | Object primitive

fun ToPrimitive :: "jsvalue \<Rightarrow> primitive" where
  "ToPrimitive (Primitive p) = p"
| "ToPrimitive (Object p) = p"

definition ToBoolean :: "primitive \<Rightarrow> bool" where
  "ToBoolean v =
     (case v of
        Undefined \<Rightarrow> False
      | Null \<Rightarrow> False
      | Boolean b \<Rightarrow> b
      | Number NaN \<Rightarrow> False
      | Number (Finite m e) \<Rightarrow> m \<noteq> 0
      | Number _ \<Rightarrow> True
      | BigInt b \<Rightarrow> b \<noteq> 0
      | String s \<Rightarrow> s \<noteq> [])"

text \<open>
  \<open>ToNumber\<close>. The conversion of a string (\<open>StringToNumber\<close> of ECMAScript: white space is
  stripped; what is left is read as a decimal, hexadecimal, octal or binary literal, is \<open>0\<close>
  when nothing is left, and \<open>NaN\<close> otherwise) belongs to the runtime and is an argument of
  the model, so every result below holds for the conversion of the browser. A BigInt is not
  converted: it throws.
\<close>

definition ToNumber :: "(jsstring \<Rightarrow> number) \<Rightarrow> primitive \<Rightarrow> error + number" where
  "ToNumber StringToNumber v =
     (case v of
        Undefined \<Rightarrow> Inr NaN
      | Null \<Rightarrow> Inr (Finite 0 0)
      | Boolean b \<Rightarrow> Inr (Finite (if b then 1 else 0) 0)
      | Number x \<Rightarrow> Inr x
      | BigInt b \<Rightarrow> Inl TypeError
      | String s \<Rightarrow> Inr (StringToNumber s))"

text \<open>
  \<open>bit_length n\<close> is the number of binary digits of \<open>n\<close>. \<open>round_to_double m e\<close> is the double
  nearest to \<open>m * 2 ^ e\<close>, the one with the even significand when two are equally near: a
  significand of more than 53 bits loses the bits beyond the 53rd.
\<close>

fun bit_length :: "nat \<Rightarrow> nat" where
  "bit_length n = (if n = 0 then 0 else Suc (bit_length (n div 2)))"

declare bit_length.simps [simp del]

definition round_to_double :: "int \<Rightarrow> int \<Rightarrow> number" where
  "round_to_double m e =
     (if \<bar>m\<bar> \<le> 2 ^ 53 then Finite m e
      else
        let s = bit_length (nat \<bar>m\<bar>) - 53;
            q = \<bar>m\<bar> div 2 ^ s;
            r = \<bar>m\<bar> mod 2 ^ s;
            q' = (if 2 ^ s < 2 * r \<or> (2 * r = 2 ^ s \<and> odd q) then q + 1 else q)
        in Finite (sgn m * q') (e + int s))"

text \<open>
  \<open>x + 1\<close> on Numbers. With a fractional part in \<open>x\<close> the exact sum is rounded to a double.
  The sum of an integer and \<open>1\<close> is exact up to \<open>2 ^ 53\<close>; beyond, where the double would be
  one of the neighbours of the exact sum, the model keeps the exact sum: the only use of
  the result is as the end of a \<open>slice\<close>, which clamps it to the length of the array, and an
  array has fewer than \<open>2 ^ 32\<close> elements (\<open>rounded_sum_slices_alike\<close> below).
\<close>

definition plus_one :: "number \<Rightarrow> number" where
  "plus_one x =
     (case x of
        NaN \<Rightarrow> NaN
      | PosInfinity \<Rightarrow> PosInfinity
      | NegInfinity \<Rightarrow> NegInfinity
      | Finite m e \<Rightarrow>
          if 0 \<le> e then Finite (m * 2 ^ nat e + 1) 0
          else round_to_double (m + 2 ^ nat (- e)) e)"

text \<open>
  \<^verbatim>\<open>event.data.index + 1\<close>: the operand is converted to a primitive; a string is
  concatenated with \<open>"1"\<close>; anything else is converted to a Number and added to \<open>1\<close>, except a
  BigInt, which cannot be mixed with the Number \<open>1\<close> and throws a \<open>TypeError\<close>.
\<close>

definition add_one :: "(jsstring \<Rightarrow> number) \<Rightarrow> jsvalue \<Rightarrow> error + primitive" where
  "add_one StringToNumber v =
     (case ToPrimitive v of
        String s \<Rightarrow> Inr (String (s @ js ''1''))
      | p \<Rightarrow>
          (case ToNumber StringToNumber p of
             Inl e \<Rightarrow> Inl e
           | Inr x \<Rightarrow> Inr (Number (plus_one x))))"

text \<open>
  \<open>ToIntegerOrInfinity\<close>, which \<open>slice\<close> applies to its arguments: \<open>NaN\<close> becomes \<open>0\<close>, a finite
  number loses its fractional part (it is truncated towards zero).
\<close>

datatype integral = MinusInfinity | Integral int | PlusInfinity

definition ToIntegerOrInfinity :: "number \<Rightarrow> integral" where
  "ToIntegerOrInfinity x =
     (case x of
        NaN \<Rightarrow> Integral 0
      | PosInfinity \<Rightarrow> PlusInfinity
      | NegInfinity \<Rightarrow> MinusInfinity
      | Finite m e \<Rightarrow>
          Integral (if 0 \<le> e then m * 2 ^ nat e else sgn m * (\<bar>m\<bar> div 2 ^ nat (- e))))"

subsection \<open>The listener\<close>

text \<open>
  The detection broadcast \<^verbatim>\<open>{ type, content, index?, manual? }\<close>, with the outcome of the test
  \<^verbatim>\<open>event.source === window\<close>.
\<close>

record event =
  ev_source_is_window :: bool
  ev_type :: jsstring
  ev_content :: jsstring
  ev_index :: jsvalue
  ev_manual :: "bool option"

text \<open>
  The second argument of \<open>slice\<close>, \<^verbatim>\<open>event.data.index + 1 || bubbles.length\<close>, as \<open>slice\<close> reads
  it: when the sum is falsy (\<open>undefined + 1\<close> is \<open>NaN\<close> and \<open>-1 + 1\<close> is \<open>0\<close>) it is the number of
  bubbles, otherwise the sum; \<open>slice\<close> converts it to a Number and then to an integer.
\<close>

definition slice_end :: "(jsstring \<Rightarrow> number) \<Rightarrow> jsvalue \<Rightarrow> nat \<Rightarrow> error + integral" where
  "slice_end StringToNumber index n =
     (case add_one StringToNumber index of
        Inl e \<Rightarrow> Inl e
      | Inr v \<Rightarrow>
          (case ToNumber StringToNumber (if ToBoolean v then v else Number (Finite (int n) 0)) of
             Inl e \<Rightarrow> Inl e
           | Inr x \<Rightarrow> Inr (ToIntegerOrInfinity x)))"

text \<open>
  \<^verbatim>\<open>xs.slice(0, e)\<close>: a negative end counts from the end of the array, and the result is
  clamped to the array.
\<close>

fun slice0 :: "integral \<Rightarrow> 'a list \<Rightarrow> 'a list" where
  "slice0 MinusInfinity xs = []"
| "slice0 (Integral e) xs =
     take (nat (if e < 0 then max (int (length xs) + e) 0 else min e (int (length xs)))) xs"
| "slice0 PlusInfinity xs = xs"

text \<open>
  \<^verbatim>\<open>Array.from(bubbles).slice(0, event.data.index + 1 || bubbles.length)\<close>; the exception is
  the one of \<open>index + 1\<close>.
\<close>

definition chatBubbles ::
  "(jsstring \<Rightarrow> number) \<Rightarrow> event \<Rightarrow> page \<Rightarrow> error + turn list" where
  "chatBubbles StringToNumber event pg =
     (case slice_end StringToNumber (ev_index event) (length (turns pg)) of
        Inl e \<Rightarrow> Inl e
      | Inr e \<Rightarrow> Inr (slice0 e (turns pg)))"

text \<open>
  \<^verbatim>\<open>bubble?.parentElement?.previousElementSibling?.firstElementChild?.textContent?.trim() || ""\<close>
\<close>

definition user_text :: "turn \<Rightarrow> jsstring" where
  "user_text t =
     (case userRow t of
        None \<Rightarrow> []
      | Some row \<Rightarrow>
          (case firstElementChild (childNodes row) of
             None \<Rightarrow> []
           | Some e \<Rightarrow> trim (textContent e)))"

text \<open>The pair of messages that \<open>chatBubbles.map\<close> builds for one bubble.\<close>

definition prompts :: "bool option \<Rightarrow> turn \<Rightarrow> message list" where
  "prompts manual_flag t =
     [\<lparr>role = User, content = cleanText (user_text t), censored = None\<rparr>,
      \<lparr>role = Assistant, content = cleanText (innerText_of (inner t)),
       censored = Some (hasCensorshipWarning t manual_flag)\<rparr>]"

text \<open>The placeholder text starts with U+1F504, a surrogate pair.\<close>

definition placeholder :: jsstring where
  "placeholder = 55357 # 56580 # js '' Checking censorship is running...''"

text \<open>
  What the response callback closes over: the position of
  \<open>chatBubbles[chatBubbles.length - 1]\<close> among the turns, \<open>promptsFlatten\<close> and
  \<open>currentBubbleInnerHtml\<close>.
\<close>

record pending =
  pending_target :: nat
  pending_prompts :: "message list"
  pending_snapshot :: "node list"

text \<open>
  The listener up to \<open>chrome.runtime.sendMessage\<close>. \<open>Inr None\<close>: the message is ignored.
  \<open>Inl TypeError\<close>: \<open>index + 1\<close> throws, or \<open>chatBubbles\<close> is empty, its last element is
  \<open>undefined\<close>, and reading \<open>innerHTML\<close> of it throws; either way nothing has been changed.
  Otherwise the page with the placeholder in the last bubble of the scope, the request, and
  the data of the callback.
\<close>

definition on_message ::
  "(jsstring \<Rightarrow> number) \<Rightarrow> event \<Rightarrow> page \<Rightarrow> error + (page \<times> request \<times> pending) option" where
  "on_message StringToNumber event pg =
     (if \<not> ev_source_is_window event \<or> ev_type event \<noteq> js ''DEEPSEEK_CENSORSHIP''
      then Inr None
      else
        case chatBubbles StringToNumber event pg of
          Inl e \<Rightarrow> Inl e
        | Inr bubbles \<Rightarrow>
            let promptsFlatten = concat (map (prompts (ev_manual event)) bubbles)
            in if bubbles = [] then Inl TypeError
               else
                 let k = length bubbles - 1;
                     censoredMessageElement = bubbles ! k;
                     currentBubbleInnerHtml = inner censoredMessageElement
                 in Inr (Some
                      (pg\<lparr>turns :=
                           (turns pg)[k := censoredMessageElement\<lparr>inner := set_innerText placeholder\<rparr>]\<rparr>,
                       \<lparr>req_action = js ''checkCensorship'',
                        req_content = ev_content event,
                        req_history = promptsFlatten,
                        req_manual = (ev_manual event = Some True)\<rparr>,
                       \<lparr>pending_target = k,
                        pending_prompts = promptsFlatten,
                        pending_snapshot = currentBubbleInnerHtml\<rparr>)))"

text \<open>\<open>saveHistory\<close> on the page: the new page and the exception, if one was thrown.\<close>

definition save_page :: "message list \<Rightarrow> page \<Rightarrow> page \<times> error option" where
  "save_page ms pg =
     (case saveHistory (location_pathname pg) ms (storage_item pg) of
        Inl e \<Rightarrow> (pg, Some e)
      | Inr it \<Rightarrow> (pg\<lparr>storage_item := it\<rparr>, None))"

text \<open>\<^verbatim>\<open>response && response.replacement\<close>\<close>

definition replacement_of :: "response option \<Rightarrow> jsstring option" where
  "replacement_of r =
     (case r of
        None \<Rightarrow> None
      | Some resp \<Rightarrow> if truthy (replacement resp) then replacement resp else None)"

text \<open>
  The response callback, run on the page as it is when the response arrives. It returns the
  page it leaves and the exception that ended it, if any: what an exception interrupts is
  not undone. The bubble is found at its position; when it is no longer rendered there is
  no parent node and the first access to it throws.
\<close>

definition on_response :: "pending \<Rightarrow> response option \<Rightarrow> page \<Rightarrow> page \<times> error option" where
  "on_response pend resp pg =
     (let k = pending_target pend in
      if length (turns pg) \<le> k then (pg, Some TypeError)
      else
        let el = turns pg ! k in
        case replacement_of resp of
          Some r \<Rightarrow>
            (let t1 = showWarning el in
             case appendExternalAiButton t1 of
               Inl e \<Rightarrow> (pg\<lparr>turns := (turns pg)[k := t1]\<rparr>, Some e)
             | Inr t2 \<Rightarrow>
                 save_page
                   (butlast (pending_prompts pend) @
                      [\<lparr>role = Assistant, content = r, censored = Some True\<rparr>])
                   (pg\<lparr>turns := (turns pg)[k := t2\<lparr>inner := set_innerText r\<rparr>]\<rparr>))
        | None \<Rightarrow>
            (let t1 = hideWarning (el\<lparr>inner := pending_snapshot pend\<rparr>) in
             case appendExternalAiButton t1 of
               Inl e \<Rightarrow> (pg\<lparr>turns := (turns pg)[k := t1]\<rparr>, Some e)
             | Inr t2 \<Rightarrow>
                 save_page
                   (butlast (pending_prompts pend) @
                      [\<lparr>role = Assistant, content = innerText_of (inner t2),
                        censored = Some False\<rparr>])
                   (pg\<lparr>turns := (turns pg)[k := t2]\<rparr>)))"

text \<open>
  The click listener of the retry button of the turn at position \<open>k\<close>: it looks the bubble up
  among the rendered ones and posts the detection event for it, or returns when it is gone.
\<close>

definition retry_click :: "nat \<Rightarrow> page \<Rightarrow> event option" where
  "retry_click k pg =
     (if length (turns pg) \<le> k then None
      else Some \<lparr>ev_source_is_window = True,
                 ev_type = js ''DEEPSEEK_CENSORSHIP'',
                 ev_content = innerText_of (inner (turns pg ! k)),
                 ev_index = Primitive (Number (Finite (int k) 0)),
                 ev_manual = Some True\<rparr>)"

text \<open>
  The state a turn is in as long as only \<open>showWarning\<close> and \<open>hideWarning\<close> handle banners: no
  banner in the container, or a single one, right before the bubble.
\<close>

definition banner_before :: "turn \<Rightarrow> bool" where
  "banner_before t \<longleftrightarrow>
     before t \<noteq> [] \<and> has_class CSS_CENSORED_WARNING_CLASS (last (before t))"

definition banner_inv :: "turn \<Rightarrow> bool" where
  "banner_inv t \<longleftrightarrow> banners t = 0 \<or> (banners t = 1 \<and> banner_before t)"

subsection \<open>A rendered conversation of two turns\<close>

text \<open>
  A turn as the host page lays it out: the row of the user's message before the parent of
  the bubble, the bubble with one paragraph, and the action row after it.
\<close>

definition rendered_turn :: "jsstring \<Rightarrow> jsstring \<Rightarrow> turn" where
  "rendered_turn question answer =
     \<lparr>userRow = Some (Elem [] [Elem [] [TextNode question]]),
      before = [],
      inner = [Elem [] [TextNode answer]],
      after = [Elem [] [Elem [] []]]\<rparr>"

definition rendered_page :: page where
  "rendered_page =
     \<lparr>turns = [rendered_turn (js ''What is X?'') (js ''X is Y''),
               rendered_turn (js ''And Z?'') (js ''I cannot discuss Z 1/2'')],
      location_pathname = js ''/a/chat/s/abc-123'',
      storage_item = NoItem\<rparr>"

definition detection :: "jsvalue \<Rightarrow> bool option \<Rightarrow> event" where
  "detection idx manual_flag =
     \<lparr>ev_source_is_window = True,
      ev_type = js ''DEEPSEEK_CENSORSHIP'',
      ev_content = js ''finish_reason'',
      ev_index = idx,
      ev_manual = manual_flag\<rparr>"

section \<open>Properties of the text normalizer\<close>

lemma match_marker_nonempty: "match_marker s \<Longrightarrow> s \<noteq> []"
  by (auto simp: match_marker_def)

lemma replace_marker_id: "\<not> ends_with_marker x \<Longrightarrow> replace_marker x = x"
  by (induction x) auto

lemma replace_marker_split:
  "ends_with_marker x \<Longrightarrow> \<exists>p m. x = p @ m \<and> match_marker m \<and> replace_marker x = p"
proof (induction x)
  case Nil
  then show ?case by simp
next
  case (Cons c cs)
  show ?case
  proof (cases "match_marker (c # cs)")
    case True
    then have "c # cs = [] @ (c # cs) \<and> match_marker (c # cs) \<and> replace_marker (c # cs) = []"
      by simp
    then show ?thesis by blast
  next
    case False
    with Cons.prems have "ends_with_marker cs" by simp
    with Cons.IH obtain p m where "cs = p @ m" "match_marker m" "replace_marker cs = p"
      by blast
    with False have "c # cs = (c # p) @ m \<and> match_marker m \<and> replace_marker (c # cs) = c # p"
      by simp
    then show ?thesis by blast
  qed
qed

lemma replace_marker_shorter: "ends_with_marker x \<Longrightarrow> length (replace_marker x) < length x"
  using replace_marker_split [of x] match_marker_nonempty by fastforce

lemma length_trim_le: "length (trim s) \<le> length s"
proof -
  have "length (trim s) \<le> length (dropWhile is_space s)"
    unfolding trim_def using length_dropWhile_le [of is_space "rev (dropWhile is_space s)"] by simp
  also have "\<dots> \<le> length s" by (rule length_dropWhile_le)
  finally show ?thesis .
qed

lemma dropWhile_rev_hd:
  "rev (dropWhile P (rev ys)) \<noteq> [] \<Longrightarrow> hd (rev (dropWhile P (rev ys))) = hd ys"
  by (induction ys rule: rev_induct) (auto simp: hd_append split: if_splits)

lemma trimmed_trim: "trimmed (trim s)"
proof (cases "trim s = []")
  case True
  then show ?thesis by (simp add: trimmed_def)
next
  case False
  let ?d = "dropWhile is_space s"
  from False have ne: "dropWhile is_space (rev ?d) \<noteq> []" by (simp add: trim_def)
  then have "\<not> is_space (hd (dropWhile is_space (rev ?d)))" by (rule hd_dropWhile)
  then have l: "\<not> is_space (last (trim s))"
    using ne by (simp add: trim_def last_rev)
  from ne have dne: "?d \<noteq> []" by (cases ?d) simp_all
  then have "\<not> is_space (hd ?d)" by (rule hd_dropWhile)
  moreover have "hd (trim s) = hd ?d"
    using False unfolding trim_def by (rule dropWhile_rev_hd)
  ultimately show ?thesis using l by (simp add: trimmed_def)
qed

lemma trim_trimmed: "trimmed s \<Longrightarrow> trim s = s"
proof (cases s)
  case Nil
  then show ?thesis by (simp add: trim_def)
next
  case (Cons c cs)
  assume "trimmed s"
  with Cons have h: "\<not> is_space (hd s)" and l: "\<not> is_space (last s)"
    by (auto simp: trimmed_def)
  from h Cons have "dropWhile is_space s = s" by simp
  moreover have "dropWhile is_space (rev s) = rev s"
  proof (cases "rev s")
    case Nil
    then show ?thesis by simp
  next
    case (Cons a as)
    from Cons have "hd (rev s) = a" by simp
    moreover from \<open>s = c # cs\<close> have "hd (rev s) = last s" by (simp add: hd_rev)
    ultimately have "\<not> is_space a" using l by simp
    with Cons show ?thesis by simp
  qed
  ultimately show ?thesis by (simp add: trim_def)
qed

lemma trimmed_cleanText: "trimmed (cleanText x)"
  by (simp add: cleanText_def trimmed_trim)

lemma cleanText_again:
  "cleanText (cleanText x) = cleanText x \<longleftrightarrow> \<not> ends_with_marker (cleanText x)"
proof
  assume eq: "cleanText (cleanText x) = cleanText x"
  show "\<not> ends_with_marker (cleanText x)"
  proof
    assume "ends_with_marker (cleanText x)"
    then have "length (replace_marker (cleanText x)) < length (cleanText x)"
      by (rule replace_marker_shorter)
    moreover have "length (cleanText (cleanText x)) \<le> length (replace_marker (cleanText x))"
      unfolding cleanText_def [of "cleanText x"] by (rule length_trim_le)
    ultimately show False using eq by simp
  qed
next
  assume "\<not> ends_with_marker (cleanText x)"
  then have "replace_marker (cleanText x) = cleanText x" by (rule replace_marker_id)
  then have "cleanText (cleanText x) = trim (cleanText x)"
    by (simp add: cleanText_def [of "cleanText x"])
  then show "cleanText (cleanText x) = cleanText x"
    by (simp add: trim_trimmed trimmed_cleanText)
qed

lemmas clean_ev = cleanText_def trim_def match_marker_def is_digit_def is_space_def js_def

text \<open>
  The one-pass test \<open>match_marker\<close> decides membership in the language of the pattern:
  digits, white space, a slash, white space, digits, and nothing else.
\<close>

lemma digit_not_space: "is_digit c \<Longrightarrow> \<not> is_space c"
  by (auto simp: is_digit_def is_space_def)

lemma slash_class: "\<not> is_digit 47" "\<not> is_space 47"
  by (simp_all add: is_digit_def is_space_def)

lemma takeWhile_stop: "ys = [] \<or> \<not> P (hd ys) \<Longrightarrow> takeWhile P ys = []"
  by (cases ys) auto

lemma dropWhile_stop: "ys = [] \<or> \<not> P (hd ys) \<Longrightarrow> dropWhile P ys = ys"
  by (cases ys) auto

lemma takeWhile_all: "list_all P xs \<Longrightarrow> ys = [] \<or> \<not> P (hd ys) \<Longrightarrow> takeWhile P (xs @ ys) = xs"
  by (induction xs) (simp_all add: takeWhile_stop)

lemma dropWhile_all: "list_all P xs \<Longrightarrow> ys = [] \<or> \<not> P (hd ys) \<Longrightarrow> dropWhile P (xs @ ys) = ys"
  by (induction xs) (simp_all add: dropWhile_stop)

lemma match_marker_iff:
  "match_marker s \<longleftrightarrow>
     (\<exists>d1 w1 w2 d2. s = d1 @ w1 @ [47] @ w2 @ d2 \<and> d1 \<noteq> [] \<and> d2 \<noteq> [] \<and>
        list_all is_digit d1 \<and> list_all is_space w1 \<and>
        list_all is_space w2 \<and> list_all is_digit d2)"
proof
  assume m: "match_marker s"
  let ?d1 = "takeWhile is_digit s" and ?r1 = "dropWhile is_digit s"
  let ?w1 = "takeWhile is_space ?r1" and ?r2 = "dropWhile is_space ?r1"
  from m obtain r3 where r2: "?r2 = 47 # r3"
    by (auto simp: match_marker_def Let_def split: list.splits)
  let ?w2 = "takeWhile is_space r3" and ?d2 = "dropWhile is_space r3"
  from m r2 have d: "?d1 \<noteq> []" "?d2 \<noteq> []" "list_all is_digit ?d2"
    by (auto simp: match_marker_def Let_def)
  have "s = ?d1 @ ?r1" by simp
  also have "?r1 = ?w1 @ ?r2" by simp
  also have "?r2 = [47] @ r3" using r2 by simp
  also have "r3 = ?w2 @ ?d2" by simp
  finally have "s = ?d1 @ ?w1 @ [47] @ ?w2 @ ?d2" .
  moreover have "list_all is_digit ?d1" "list_all is_space ?w1" "list_all is_space ?w2"
    by (simp_all add: list_all_iff) (meson set_takeWhileD)+
  ultimately show "\<exists>d1 w1 w2 d2. s = d1 @ w1 @ [47] @ w2 @ d2 \<and> d1 \<noteq> [] \<and> d2 \<noteq> [] \<and>
        list_all is_digit d1 \<and> list_all is_space w1 \<and>
        list_all is_space w2 \<and> list_all is_digit d2"
    using d by blast
next
  assume "\<exists>d1 w1 w2 d2. s = d1 @ w1 @ [47] @ w2 @ d2 \<and> d1 \<noteq> [] \<and> d2 \<noteq> [] \<and>
        list_all is_digit d1 \<and> list_all is_space w1 \<and>
        list_all is_space w2 \<and> list_all is_digit d2"
  then obtain d1 w1 w2 d2 where s: "s = d1 @ w1 @ [47] @ w2 @ d2"
    and ne: "d1 \<noteq> []" "d2 \<noteq> []"
    and cl: "list_all is_digit d1" "list_all is_space w1" "list_all is_space w2" "list_all is_digit d2"
    by blast
  have h1: "\<not> is_digit (hd (w1 @ 47 # w2 @ d2))"
    using cl(2) slash_class digit_not_space by (cases w1) auto
  have t1: "takeWhile is_digit s = d1" "dropWhile is_digit s = w1 @ 47 # w2 @ d2"
    unfolding s using cl(1) h1 by (simp_all add: takeWhile_all dropWhile_all)
  have t2: "dropWhile is_space (w1 @ 47 # w2 @ d2) = 47 # w2 @ d2"
    using cl(2) slash_class by (simp add: dropWhile_all)
  have h3: "\<not> is_space (hd d2)"
    using ne(2) cl(4) digit_not_space by (cases d2) auto
  have t3: "dropWhile is_space (w2 @ d2) = d2"
    using dropWhile_all [OF cl(3), of d2] h3 by blast
  show "match_marker s"
    unfolding match_marker_def Let_def t1 t2 list.case t3 using ne cl(4) by simp
qed

text \<open>
  Claim C8, as stated, fails: \<open>cleanText\<close> removes one marker, and what is left may end with
  another one. \<open>"1/2 3/4"\<close> becomes \<open>"1/2"\<close>, which becomes the empty string.
\<close>

theorem cleanText_twice_differs:
  "cleanText (js ''1/2 3/4'') = js ''1/2'' \<and> cleanText (js ''1/2'') = [] \<and>
   cleanText (cleanText (js ''1/2 3/4'')) \<noteq> cleanText (js ''1/2 3/4'')"
  by (simp add: clean_ev)

text \<open>
  The leftmost match is the longest suffix of the input that is a marker: a suffix that
  matches begins no earlier than the place where \<open>replace_marker\<close> cuts.
\<close>

lemma ends_with_marker_iff: "ends_with_marker x \<longleftrightarrow> (\<exists>p m. x = p @ m \<and> match_marker m)"
proof
  assume "ends_with_marker x"
  then show "\<exists>p m. x = p @ m \<and> match_marker m"
    using replace_marker_split by blast
next
  assume "\<exists>p m. x = p @ m \<and> match_marker m"
  then obtain p m where "x = p @ m" "match_marker m" by blast
  then show "ends_with_marker x"
  proof (induction p arbitrary: x)
    case Nil
    then show ?case using match_marker_nonempty [of m] by (cases x) auto
  next
    case (Cons c p)
    then show ?case by simp
  qed
qed

lemma replace_marker_leftmost:
  "x = p' @ m' \<Longrightarrow> match_marker m' \<Longrightarrow> length (replace_marker x) \<le> length p'"
proof (induction x arbitrary: p')
  case Nil
  then show ?case by simp
next
  case (Cons c cs)
  show ?case
  proof (cases "match_marker (c # cs)")
    case True
    then show ?thesis by simp
  next
    case False
    with Cons.prems have "p' \<noteq> []" by auto
    then obtain q where q: "p' = c # q" "cs = q @ m'"
      using Cons.prems(1) by (cases p') auto
    from Cons.IH [OF q(2) Cons.prems(2)] False q(1) show ?thesis by simp
  qed
qed

text \<open>
  Claim C8 (amended). A marker is a string made of digits, optional white space, a slash,
  optional white space and digits. A string ends with a marker when one of its suffixes is
  a marker. One application of \<open>cleanText\<close> to such a string cuts off the longest suffix
  that is a marker (the leftmost match of the pattern) and trims what is left; on a string
  that does not end with a marker it is \<open>trim\<close>. A second application changes nothing
  exactly when the result of the first does not end with a marker again.
\<close>

theorem cleanText_single_application:
  "(\<forall>m. match_marker m \<longleftrightarrow>
      (\<exists>d1 w1 w2 d2. m = d1 @ w1 @ [47] @ w2 @ d2 \<and> d1 \<noteq> [] \<and> d2 \<noteq> [] \<and>
         list_all is_digit d1 \<and> list_all is_space w1 \<and>
         list_all is_space w2 \<and> list_all is_digit d2)) \<and>
   (ends_with_marker x \<longleftrightarrow> (\<exists>p m. x = p @ m \<and> match_marker m)) \<and>
   (\<not> ends_with_marker x \<longrightarrow> cleanText x = trim x) \<and>
   (ends_with_marker x \<longrightarrow>
      (\<exists>p m. x = p @ m \<and> match_marker m \<and>
         (\<forall>p' m'. x = p' @ m' \<and> match_marker m' \<longrightarrow> length m' \<le> length m) \<and>
         cleanText x = trim p)) \<and>
   (cleanText (cleanText x) = cleanText x \<longleftrightarrow> \<not> ends_with_marker (cleanText x))"
proof (intro conjI impI allI)
  fix m
  show "match_marker m \<longleftrightarrow>
      (\<exists>d1 w1 w2 d2. m = d1 @ w1 @ [47] @ w2 @ d2 \<and> d1 \<noteq> [] \<and> d2 \<noteq> [] \<and>
         list_all is_digit d1 \<and> list_all is_space w1 \<and>
         list_all is_space w2 \<and> list_all is_digit d2)"
    by (rule match_marker_iff)
next
  show "ends_with_marker x \<longleftrightarrow> (\<exists>p m. x = p @ m \<and> match_marker m)"
    by (rule ends_with_marker_iff)
next
  assume "\<not> ends_with_marker x"
  then show "cleanText x = trim x" by (simp add: cleanText_def replace_marker_id)
next
  assume "ends_with_marker x"
  then obtain p m where pm: "x = p @ m" "match_marker m" "replace_marker x = p"
    using replace_marker_split by blast
  have t: "cleanText x = trim p" unfolding cleanText_def pm(3) ..
  have mx: "\<forall>p' m'. x = p' @ m' \<and> match_marker m' \<longrightarrow> length m' \<le> length m"
  proof (intro allI impI)
    fix p' m'
    assume a: "x = p' @ m' \<and> match_marker m'"
    then have "length (replace_marker x) \<le> length p'"
      using replace_marker_leftmost by blast
    then have "length p \<le> length p'" by (simp only: pm(3))
    moreover have "length p + length m = length p' + length m'"
      using a pm(1) by (metis length_append)
    ultimately show "length m' \<le> length m" by arith
  qed
  show "\<exists>p m. x = p @ m \<and> match_marker m \<and>
         (\<forall>p' m'. x = p' @ m' \<and> match_marker m' \<longrightarrow> length m' \<le> length m) \<and>
         cleanText x = trim p"
  proof (intro exI conjI)
    show "x = p @ m" by (rule pm(1))
    show "match_marker m" by (rule pm(2))
    show "\<forall>p' m'. x = p' @ m' \<and> match_marker m' \<longrightarrow> length m' \<le> length m" by (rule mx)
    show "cleanText x = trim p" by (rule t)
  qed
next
  show "cleanText (cleanText x) = cleanText x \<longleftrightarrow> \<not> ends_with_marker (cleanText x)"
    by (rule cleanText_again)
qed

theorem cleanText_single_application_witness:
  "ends_with_marker (js ''Answer text 3/7'') \<and>
   cleanText (js ''Answer text 3/7'') = js ''Answer text'' \<and>
   ends_with_marker (js ''Answer 12/34'') \<and>
   js ''Answer 12/34'' = js ''Answer '' @ js ''12/34'' \<and> match_marker (js ''12/34'') \<and>
   \<not> match_marker (js '' 12/34'') \<and>
   cleanText (js ''Answer 12/34'') = js ''Answer'' \<and>
   (\<exists>p m. js ''Answer 12/34'' = p @ m \<and> match_marker m \<and>
      (\<forall>p' m'. js ''Answer 12/34'' = p' @ m' \<and> match_marker m' \<longrightarrow> length m' \<le> length m) \<and>
      cleanText (js ''Answer 12/34'') = trim p) \<and>
   \<not> ends_with_marker (js ''plain'') \<and>
   cleanText (js ''plain'') = js ''plain'' \<and>
   cleanText (cleanText (js ''Answer text 3/7'')) = cleanText (js ''Answer text 3/7'')"
proof -
  have a: "ends_with_marker (js ''Answer text 3/7'')"
    and b: "\<not> ends_with_marker (js ''plain'')"
    and c: "cleanText (js ''Answer text 3/7'') = js ''Answer text''"
    and d: "trim (js ''plain'') = js ''plain''"
    and e: "\<not> ends_with_marker (js ''Answer text'')"
    by (simp_all add: clean_ev)
  have a2: "ends_with_marker (js ''Answer 12/34'')"
    and s2: "js ''Answer 12/34'' = js ''Answer '' @ js ''12/34''"
    and m2: "match_marker (js ''12/34'')"
    and n2: "\<not> match_marker (js '' 12/34'')"
    and c2: "cleanText (js ''Answer 12/34'') = js ''Answer''"
    by (simp_all add: clean_ev)
  note T = cleanText_single_application [of "js ''Answer 12/34''"]
  have "ends_with_marker (js ''Answer 12/34'') \<longrightarrow>
      (\<exists>p m. js ''Answer 12/34'' = p @ m \<and> match_marker m \<and>
         (\<forall>p' m'. js ''Answer 12/34'' = p' @ m' \<and> match_marker m' \<longrightarrow> length m' \<le> length m) \<and>
         cleanText (js ''Answer 12/34'') = trim p)"
    by (rule conjunct1 [OF conjunct2 [OF conjunct2 [OF conjunct2 [OF T]]]])
  then have x2: "\<exists>p m. js ''Answer 12/34'' = p @ m \<and> match_marker m \<and>
         (\<forall>p' m'. js ''Answer 12/34'' = p' @ m' \<and> match_marker m' \<longrightarrow> length m' \<le> length m) \<and>
         cleanText (js ''Answer 12/34'') = trim p"
    using a2 by (rule mp)
  have "\<not> ends_with_marker (js ''plain'') \<longrightarrow> cleanText (js ''plain'') = trim (js ''plain'')"
    by (rule conjunct1 [OF conjunct2 [OF conjunct2
          [OF cleanText_single_application [of "js ''plain''"]]]])
  then have "cleanText (js ''plain'') = trim (js ''plain'')" using b by (rule mp)
  then have p: "cleanText (js ''plain'') = js ''plain''" by (simp only: d)
  have "cleanText (cleanText (js ''Answer text 3/7'')) = cleanText (js ''Answer text 3/7'')
          \<longleftrightarrow> \<not> ends_with_marker (cleanText (js ''Answer text 3/7''))"
    by (rule conjunct2 [OF conjunct2 [OF conjunct2 [OF conjunct2
          [OF cleanText_single_application [of "js ''Answer text 3/7''"]]]]])
  moreover have "\<not> ends_with_marker (cleanText (js ''Answer text 3/7''))"
    unfolding c by (rule e)
  ultimately
  have i: "cleanText (cleanText (js ''Answer text 3/7'')) = cleanText (js ''Answer text 3/7'')"
    by (rule iffD2)
  show ?thesis
  proof (intro conjI)
    show "ends_with_marker (js ''Answer text 3/7'')" by (rule a)
    show "cleanText (js ''Answer text 3/7'') = js ''Answer text''" by (rule c)
    show "ends_with_marker (js ''Answer 12/34'')" by (rule a2)
    show "js ''Answer 12/34'' = js ''Answer '' @ js ''12/34''" by (rule s2)
    show "match_marker (js ''12/34'')" by (rule m2)
    show "\<not> match_marker (js '' 12/34'')" by (rule n2)
    show "cleanText (js ''Answer 12/34'') = js ''Answer''" by (rule c2)
    show "\<exists>p m. js ''Answer 12/34'' = p @ m \<and> match_marker m \<and>
      (\<forall>p' m'. js ''Answer 12/34'' = p' @ m' \<and> match_marker m' \<longrightarrow> length m' \<le> length m) \<and>
      cleanText (js ''Answer 12/34'') = trim p" by (rule x2)
    show "\<not> ends_with_marker (js ''plain'')" by (rule b)
    show "cleanText (js ''plain'') = js ''plain''" by (rule p)
    show "cleanText (cleanText (js ''Answer text 3/7'')) = cleanText (js ''Answer text 3/7'')"
      by (rule i)
  qed
qed

section \<open>Properties of the remote side\<close>

lemmas censor_ev = isCensored_def regex_here_def word_boundary_def is_word_char_def
  canonicalize_def censorshipPhrases_def js_def

lemma isCensored_refusal: "isCensored (js ''I'm sorry, I cannot help with that'')"
  by (simp add: censor_ev)

lemma isCensored_plain: "\<not> isCensored (js ''Paris is the capital of France'')"
  by (simp add: censor_ev)

text \<open>When the external call is issued: the \<open>manual\<close> field of the request is never read.\<close>

lemma rewrite_call_iff:
  "fetched (checkCensorship P cfg fetch rq) \<noteq> None \<longleftrightarrow>
     req_action rq = js ''checkCensorship'' \<and> truthy (openai_api_key cfg) \<and>
     req_history rq \<noteq> [] \<and> isCensored (content (last (req_history rq)))"
  by (simp add: checkCensorship_def truthy_def Let_def split: option.splits)

lemma echo_when_not_censored:
  "req_action rq = js ''checkCensorship'' \<Longrightarrow> truthy (openai_api_key cfg) \<Longrightarrow>
   req_history rq \<noteq> [] \<Longrightarrow> \<not> isCensored (content (last (req_history rq))) \<Longrightarrow>
     checkCensorship P cfg fetch rq =
       \<lparr>fetched = None,
        sent = Some \<lparr>replacement = Some (content (last (req_history rq)))\<rparr>,
        thrown = None\<rparr>"
  by (simp add: checkCensorship_def truthy_def Let_def split: option.splits)

text \<open>
  Claim C2 at a manual retry on a turn whose text the classifier does not flag: with an API
  key configured and \<open>manual: true\<close> in the request, no external call is issued and the
  text of the last message of the history comes back as the replacement.
\<close>

theorem manual_retry_not_forced:
  "checkCensorship P
     \<lparr>openai_api_key = Some (js ''sk-test''), openai_model = None\<rparr> fetch
     \<lparr>req_action = js ''checkCensorship'',
      req_content = js ''Paris is the capital of France'',
      req_history =
        [\<lparr>role = User, content = js ''What is the capital of France?'', censored = None\<rparr>,
         \<lparr>role = Assistant, content = js ''Paris is the capital of France'',
          censored = Some True\<rparr>],
      req_manual = True\<rparr>
   = \<lparr>fetched = None,
      sent = Some \<lparr>replacement = Some (js ''Paris is the capital of France'')\<rparr>,
      thrown = None\<rparr>"
proof -
  have "js ''sk-test'' \<noteq> []" by (simp add: js_def)
  then show ?thesis
    using isCensored_plain
    by (simp add: echo_when_not_censored truthy_def)
qed

text \<open>
  Claim C3. For a \<open>checkCensorship\<close> request, each failure of the rewrite path is answered
  through \<open>sendResponse\<close> with an error text in the \<open>replacement\<close> field, and no exception
  escapes: a missing (or empty) API key; an external call that was issued and rejected; an
  answer of the provider without \<open>choices\<close>, or with an empty list of them.
\<close>

theorem failure_is_reported_as_replacement:
  assumes "req_action rq = js ''checkCensorship''"
  shows "(\<not> truthy (openai_api_key cfg) \<longrightarrow>
            sent (checkCensorship P cfg fetch rq) =
              Some \<lparr>replacement =
                Some (js ''Error: No OpenAI API key set. Skipping censorship bypass.'')\<rparr> \<and>
            thrown (checkCensorship P cfg fetch rq) = None) \<and>
         (\<forall>call. fetched (checkCensorship P cfg fetch rq) = Some call \<longrightarrow>
            thrown (checkCensorship P cfg fetch rq) = None \<and>
            (fetch call = Rejected \<longrightarrow>
               sent (checkCensorship P cfg fetch rq) =
                 Some \<lparr>replacement = Some (js ''Error: OpenAI API request failed.'')\<rparr>) \<and>
            (fetch call = Resolved None \<or> fetch call = Resolved (Some []) \<longrightarrow>
               sent (checkCensorship P cfg fetch rq) =
                 Some \<lparr>replacement =
                   Some (js ''Error: Unable to fetch a response from GPT.'')\<rparr>))"
  using assms
  by (auto simp: checkCensorship_def truthy_def Let_def split: option.splits)

theorem failure_is_reported_as_replacement_witness:
  "sent (checkCensorship [] \<lparr>openai_api_key = None, openai_model = None\<rparr> (\<lambda>call. Rejected)
      \<lparr>req_action = js ''checkCensorship'', req_content = [], req_history = [],
       req_manual = False\<rparr>) =
     Some \<lparr>replacement = Some (js ''Error: No OpenAI API key set. Skipping censorship bypass.'')\<rparr>
   \<and> fetched (checkCensorship [] \<lparr>openai_api_key = Some (js ''sk-test''), openai_model = None\<rparr>
        (\<lambda>call. Rejected)
        \<lparr>req_action = js ''checkCensorship'', req_content = [],
         req_history = [\<lparr>role = Assistant,
            content = js ''I'm sorry, I cannot help with that'', censored = Some False\<rparr>],
         req_manual = False\<rparr>) \<noteq> None
   \<and> sent (checkCensorship [] \<lparr>openai_api_key = Some (js ''sk-test''), openai_model = None\<rparr>
        (\<lambda>call. Rejected)
        \<lparr>req_action = js ''checkCensorship'', req_content = [],
         req_history = [\<lparr>role = Assistant,
            content = js ''I'm sorry, I cannot help with that'', censored = Some False\<rparr>],
         req_manual = False\<rparr>) =
     Some \<lparr>replacement = Some (js ''Error: OpenAI API request failed.'')\<rparr>"
proof -
  let ?none = "\<lparr>req_action = js ''checkCensorship'', req_content = [], req_history = [],
       req_manual = False\<rparr>"
  let ?cfg = "\<lparr>openai_api_key = Some (js ''sk-test''), openai_model = None\<rparr>"
  let ?rq = "\<lparr>req_action = js ''checkCensorship'', req_content = [],
         req_history = [\<lparr>role = Assistant,
            content = js ''I'm sorry, I cannot help with that'', censored = Some False\<rparr>],
         req_manual = False\<rparr>"
  have k: "truthy (Some (js ''sk-test''))" by (simp add: truthy_def js_def)
  have f: "fetched (checkCensorship [] ?cfg (\<lambda>call. Rejected) ?rq) \<noteq> None"
    unfolding rewrite_call_iff using k isCensored_refusal by simp
  have a: "sent (checkCensorship [] \<lparr>openai_api_key = None, openai_model = None\<rparr>
             (\<lambda>call. Rejected) ?none) =
     Some \<lparr>replacement = Some (js ''Error: No OpenAI API key set. Skipping censorship bypass.'')\<rparr>"
    using failure_is_reported_as_replacement
            [of ?none "\<lparr>openai_api_key = None, openai_model = None\<rparr>" "[]" "\<lambda>call. Rejected"]
    by (simp add: truthy_def)
  have b: "sent (checkCensorship [] ?cfg (\<lambda>call. Rejected) ?rq) =
     Some \<lparr>replacement = Some (js ''Error: OpenAI API request failed.'')\<rparr>"
    using failure_is_reported_as_replacement [of ?rq ?cfg "[]" "\<lambda>call. Rejected"] f
    by auto
  from a f b show ?thesis by simp
qed

text \<open>
  Claim C6. Whenever the external call is issued, its message list is the instructive
  message with the text \<open>GPT_SYSTEM_PROMPT\<close>, followed by the history of the request
  without its last message. The role of the first message is \<open>system\<close>, or \<open>developer\<close> for
  a model whose name starts with \<open>o3\<close>; the call names the configured model, or the default
  one when none is configured.
\<close>

theorem system_prompt_prepended:
  assumes "fetched (checkCensorship GPT_SYSTEM_PROMPT cfg fetch rq) = Some call"
  shows "body_messages call =
           \<lparr>role = (if startsWith (body_model call) (js ''o3'') then Developer else System),
            content = GPT_SYSTEM_PROMPT, censored = None\<rparr> # butlast (req_history rq) \<and>
         body_model call =
           (if truthy (openai_model cfg) then the (openai_model cfg) else DEFAULT_OPENAI_MODEL)"
  using assms
  by (auto simp: checkCensorship_def truthy_def Let_def split: option.splits if_splits)

theorem system_prompt_prepended_witness:
  "\<exists>call.
     fetched (checkCensorship (js ''You are an AI assistant'')
        \<lparr>openai_api_key = Some (js ''sk-test''), openai_model = None\<rparr> (\<lambda>call. Rejected)
        \<lparr>req_action = js ''checkCensorship'', req_content = [],
         req_history =
           [\<lparr>role = User, content = js ''What is X?'', censored = None\<rparr>,
            \<lparr>role = Assistant, content = js ''I'm sorry, I cannot help with that'',
             censored = Some False\<rparr>],
         req_manual = False\<rparr>) = Some call \<and>
     body_messages call =
       [\<lparr>role = System, content = js ''You are an AI assistant'', censored = None\<rparr>,
        \<lparr>role = User, content = js ''What is X?'', censored = None\<rparr>] \<and>
     body_model call = js ''gpt-3.5-turbo''"
proof -
  let ?cfg = "\<lparr>openai_api_key = Some (js ''sk-test''), openai_model = None\<rparr>"
  let ?rq = "\<lparr>req_action = js ''checkCensorship'', req_content = [],
         req_history =
           [\<lparr>role = User, content = js ''What is X?'', censored = None\<rparr>,
            \<lparr>role = Assistant, content = js ''I'm sorry, I cannot help with that'',
             censored = Some False\<rparr>],
         req_manual = False\<rparr>"
  have k: "truthy (Some (js ''sk-test''))" by (simp add: truthy_def js_def)
  have "fetched (checkCensorship (js ''You are an AI assistant'') ?cfg (\<lambda>call. Rejected) ?rq)
          \<noteq> None"
    unfolding rewrite_call_iff using k isCensored_refusal by simp
  then obtain call
    where c: "fetched (checkCensorship (js ''You are an AI assistant'') ?cfg
                (\<lambda>call. Rejected) ?rq) = Some call"
    by blast
  have o3: "\<not> startsWith (js ''gpt-3.5-turbo'') (js ''o3'')"
    by (simp add: startsWith_def js_def)
  from system_prompt_prepended [OF c] o3 c show ?thesis
    by (simp add: truthy_def DEFAULT_OPENAI_MODEL_def)
qed

section \<open>Properties of the history store\<close>

lemma getChatIdFromUrl_id_chars:
  "getChatIdFromUrl p = Some c \<Longrightarrow> c \<noteq> [] \<and> list_all is_id_char c"
proof (induction p)
  case Nil
  then show ?case by simp
next
  case (Cons a p)
  have t: "list_all is_id_char (takeWhile is_id_char rest)" for rest
    by (induction rest) simp_all
  from Cons show ?case
    by (auto simp: t split: option.splits if_splits)
qed

lemma getChatIdFromUrl_nonempty: "getChatIdFromUrl p = Some c \<Longrightarrow> c \<noteq> []"
  using getChatIdFromUrl_id_chars by blast

text \<open>Every inherited name has a character outside \<open>[a-f0-9-]\<close>.\<close>

lemma id_chars_not_inherited: "list_all is_id_char c \<Longrightarrow> \<not> inherited c"
  by (auto simp: inherited_def Object_prototype_def js_def is_id_char_def)

lemma getChatIdFromUrl_not_inherited: "getChatIdFromUrl p = Some c \<Longrightarrow> \<not> inherited c"
  using getChatIdFromUrl_id_chars id_chars_not_inherited by blast

lemma restore_after_save:
  "getChatIdFromUrl p = Some c \<Longrightarrow> it \<noteq> Unparseable \<Longrightarrow>
     \<exists>it'. saveHistory p ms it = Inr it' \<and> it' \<noteq> Unparseable \<and>
           restoreHistory (Some c) it' = Inr (History ms) \<and>
           (\<forall>c'. c' \<noteq> c \<longrightarrow> restoreHistory (Some c') it' = restoreHistory (Some c') it)"
  by (cases it)
     (auto simp: saveHistory_def restoreHistory_def parse_chats_def
           dest: getChatIdFromUrl_nonempty)




lemmas url_ev = js_def is_id_char_def




text \<open>
  Claim C5, as stated, fails on a stored item that is not JSON: \<open>JSON.parse\<close> throws and
  \<open>restoreHistory\<close> has no handler for it. It also fails, with no item stored, for an id
  that names a property inherited from \<open>Object.prototype\<close>.
\<close>

theorem restoreHistory_corrupt_throws:
  "restoreHistory (Some (js ''abc-123'')) Unparseable = Inl SyntaxError \<and>
   restoreHistory (Some (js ''abc-123'')) Unparseable \<noteq> Inr (History []) \<and>
   restoreHistory (Some (js ''toString'')) NoItem = Inr (Inherited (js ''toString'')) \<and>
   restoreHistory (Some (js ''toString'')) NoItem \<noteq> Inr (History [])"
  by (simp add: restoreHistory_def parse_chats_def inherited_def Object_prototype_def js_def)

text \<open>
  Claim C5 (amended). When the item is absent, \<open>restoreHistory\<close> returns the empty list
  without throwing for every id that is not the name of a property inherited from
  \<open>Object.prototype\<close>, so for whatever \<open>getChatIdFromUrl\<close> returns. Whatever the item, it
  returns the empty list when the id is absent or empty (the store is not read then). For
  a non-empty id and an item that is not parseable as JSON it throws the \<open>SyntaxError\<close> of
  \<open>JSON.parse\<close>.
\<close>

theorem restoreHistory_absent_or_corrupt:
  "((\<forall>c. chatId = Some c \<longrightarrow> \<not> inherited c) \<longrightarrow>
      restoreHistory chatId NoItem = Inr (History [])) \<and>
   (\<forall>pathname. getChatIdFromUrl pathname = chatId \<longrightarrow>
      restoreHistory chatId NoItem = Inr (History [])) \<and>
   (\<not> truthy chatId \<longrightarrow> restoreHistory chatId it = Inr (History [])) \<and>
   (truthy chatId \<longrightarrow> restoreHistory chatId Unparseable = Inl SyntaxError)"
proof (intro conjI impI allI)
  assume "\<forall>c. chatId = Some c \<longrightarrow> \<not> inherited c"
  then show "restoreHistory chatId NoItem = Inr (History [])"
    by (cases chatId) (simp_all add: restoreHistory_def parse_chats_def)
next
  fix pathname
  assume "getChatIdFromUrl pathname = chatId"
  then show "restoreHistory chatId NoItem = Inr (History [])"
    using getChatIdFromUrl_not_inherited [of pathname]
    by (cases chatId) (simp_all add: restoreHistory_def parse_chats_def)
next
  assume "\<not> truthy chatId"
  then show "restoreHistory chatId it = Inr (History [])"
    by (auto simp: restoreHistory_def truthy_def split: option.splits)
next
  assume "truthy chatId"
  then show "restoreHistory chatId Unparseable = Inl SyntaxError"
    by (auto simp: restoreHistory_def parse_chats_def truthy_def split: option.splits)
qed

theorem restoreHistory_absent_or_corrupt_witness:
  "\<not> truthy None \<and> restoreHistory None Unparseable = Inr (History []) \<and>
   truthy (Some (js ''abc-123'')) \<and> \<not> inherited (js ''abc-123'') \<and>
   getChatIdFromUrl (js ''/a/chat/s/abc-123'') = Some (js ''abc-123'') \<and>
   restoreHistory (Some (js ''abc-123'')) NoItem = Inr (History []) \<and>
   restoreHistory (Some (js ''abc-123'')) Unparseable = Inl SyntaxError \<and>
   \<not> inherited (js ''missing-id'') \<and>
   restoreHistory (Some (js ''missing-id'')) NoItem = Inr (History [])"
proof -
  have i: "\<not> inherited (js ''abc-123'')" "\<not> inherited (js ''missing-id'')"
    by (simp_all add: inherited_def Object_prototype_def js_def)
  have id: "getChatIdFromUrl (js ''/a/chat/s/abc-123'') = Some (js ''abc-123'')"
    by (simp add: url_ev)
  have t: "\<not> truthy None" "truthy (Some (js ''abc-123''))"
    by (simp_all add: truthy_def js_def)
  from restoreHistory_absent_or_corrupt [of None Unparseable]
       restoreHistory_absent_or_corrupt [of "Some (js ''abc-123'')" Unparseable]
       restoreHistory_absent_or_corrupt [of "Some (js ''missing-id'')" Unparseable]
       i id t
  show ?thesis by simp
qed

section \<open>Properties of the banner\<close>

lemma querySelector_None_iff: "querySelector c ns = None \<longleftrightarrow> count_class c ns = 0"
  by (induction c ns rule: querySelector.induct) (auto split: option.splits)

lemma count_class_append: "count_class c (xs @ ys) = count_class c xs + count_class c ys"
  by (induction c xs rule: count_class.induct) auto

lemma remove_first_none: "count_class c ns = 0 \<Longrightarrow> remove_first c ns = ns"
proof (induction c ns rule: remove_first.induct)
  case (1 c)
  then show ?case by simp
next
  case (2 c s ns)
  then show ?case by simp
next
  case (3 c cs ks ns)
  from "3.prems" have out: "c \<notin> set cs" and ks: "count_class c ks = 0"
    and ns: "count_class c ns = 0"
    by (simp_all split: if_splits)
  from ks have q: "querySelector c ks = None" by (simp add: querySelector_None_iff)
  with out ns "3.IH"(2) have "remove_first c ns = ns" by simp
  with out q show ?case by simp
qed

lemma count_class_remove_first:
  "count_class c ns \<le> 1 \<Longrightarrow> count_class c (remove_first c ns) = 0"
proof (induction c ns rule: remove_first.induct)
  case (1 c)
  then show ?case by simp
next
  case (2 c s ns)
  then show ?case by simp
next
  case (3 c cs ks ns)
  show ?case
  proof (cases "c \<in> set cs")
    case True
    with "3.prems" show ?thesis by simp
  next
    case out: False
    show ?thesis
    proof (cases "querySelector c ks = None")
      case True
      then have "count_class c ks = 0" by (simp add: querySelector_None_iff)
      with out True 3 show ?thesis by simp
    next
      case False
      then have "0 < count_class c ks" by (simp add: querySelector_None_iff)
      with out False 3 show ?thesis by simp
    qed
  qed
qed

lemma remove_first_append:
  "remove_first c (xs @ ys) =
     (if querySelector c xs \<noteq> None then remove_first c xs @ ys else xs @ remove_first c ys)"
proof (induction xs)
  case Nil
  then show ?case by simp
next
  case (Cons x xs)
  show ?case
  proof (cases x)
    case (TextNode s)
    with Cons show ?thesis by simp
  next
    case (Elem cs ks)
    with Cons show ?thesis by (cases "querySelector c ks") auto
  qed
qed

lemma bubble_not_banner: "CSS_CENSORED_WARNING_CLASS \<notin> set chatBubbleSelector"
  by (simp add: CSS_CENSORED_WARNING_CLASS_def chatBubbleSelector_def)

lemma banners_parts:
  "banners t = count_class CSS_CENSORED_WARNING_CLASS (before t)
             + count_class CSS_CENSORED_WARNING_CLASS (inner t)
             + count_class CSS_CENSORED_WARNING_CLASS (after t)"
  by (simp add: banners_def parent_children_def bubble_def count_class_append bubble_not_banner)

lemma count_warning: "count_class CSS_CENSORED_WARNING_CLASS [warning] = 1"
  by (simp add: warning_def)

text \<open>\<open>hideWarning\<close> on the three parts of the turn is \<open>remove_first\<close> on the parent's children.\<close>

lemma parent_children_hideWarning:
  "parent_children (hideWarning t) = remove_first CSS_CENSORED_WARNING_CLASS (parent_children t)"
  by (simp add: hideWarning_def parent_children_def bubble_def remove_first_append
      bubble_not_banner querySelector_None_iff)

lemma showWarning_cases:
  "banners t = 0 \<Longrightarrow> showWarning t = t\<lparr>before := before t @ [warning]\<rparr>"
  "banners t \<noteq> 0 \<Longrightarrow> showWarning t = t"
  by (simp_all add: showWarning_def banners_def querySelector_None_iff)

lemma banners_showWarning: "banners (showWarning t) = (if banners t = 0 then 1 else banners t)"
  by (cases "banners t = 0")
     (simp_all add: showWarning_cases, simp add: banners_parts count_class_append count_warning)

lemma banners_hideWarning: "banners t \<le> 1 \<Longrightarrow> banners (hideWarning t) = 0"
  by (simp add: banners_def parent_children_hideWarning count_class_remove_first)

lemma showWarning_idem: "showWarning (showWarning t) = showWarning t"
proof -
  have "banners (showWarning t) \<noteq> 0" by (simp add: banners_showWarning)
  then show ?thesis by (rule showWarning_cases(2))
qed

lemma banner_before_showWarning: "banner_inv t \<Longrightarrow> banner_before (showWarning t)"
  by (cases "banners t = 0")
     (auto simp: showWarning_cases banner_inv_def banner_before_def warning_def)

lemma banner_inv_showWarning: "banner_inv t \<Longrightarrow> banner_inv (showWarning t)"
  using banner_before_showWarning [of t]
  by (auto simp: banner_inv_def banners_showWarning)

lemma banner_inv_hideWarning: "banner_inv t \<Longrightarrow> banner_inv (hideWarning t)"
  by (auto simp: banner_inv_def banners_hideWarning)

lemma count_class_last:
  "xs \<noteq> [] \<Longrightarrow> has_class c (last xs) \<Longrightarrow> 0 < count_class c xs"
proof (induction c xs rule: count_class.induct)
  case (1 c)
  then show ?case by simp
next
  case (2 c s ns)
  then show ?case by (cases ns) auto
next
  case (3 c cs ks ns)
  then show ?case by (cases ns) (auto split: if_splits)
qed

lemma banner_inv_parts:
  assumes "banner_inv t"
  shows "count_class CSS_CENSORED_WARNING_CLASS (inner t) = 0"
    and "count_class CSS_CENSORED_WARNING_CLASS (after t) = 0"
    and "banners t \<le> 1"
proof -
  have "count_class CSS_CENSORED_WARNING_CLASS (inner t) = 0 \<and>
        count_class CSS_CENSORED_WARNING_CLASS (after t) = 0 \<and> banners t \<le> 1"
  proof (cases "banners t = 0")
    case True
    then show ?thesis by (simp add: banners_parts)
  next
    case False
    with assms have one: "banners t = 1" and b: "banner_before t"
      by (auto simp: banner_inv_def)
    from b have "0 < count_class CSS_CENSORED_WARNING_CLASS (before t)"
      by (simp add: banner_before_def count_class_last)
    with one show ?thesis by (simp add: banners_parts)
  qed
  then show "count_class CSS_CENSORED_WARNING_CLASS (inner t) = 0"
    and "count_class CSS_CENSORED_WARNING_CLASS (after t) = 0"
    and "banners t \<le> 1"
    by simp_all
qed

lemma banners_rendered_turn: "banners (rendered_turn q a) = 0"
  by (simp add: banners_parts rendered_turn_def)

lemma banner_inv_rendered_turn: "banner_inv (rendered_turn q a)"
  by (simp add: banner_inv_def banners_rendered_turn)

text \<open>
  Claim C9. A second \<open>showWarning\<close> on the same turn changes nothing. On a turn in the
  state the script itself keeps its banners in (no banner in the container, or the single
  one right before the bubble), two invocations leave exactly one banner node in the
  container, and it is the node right before the bubble.
\<close>

theorem showWarning_twice:
  "showWarning (showWarning t) = showWarning t \<and>
   (banner_inv t \<longrightarrow>
      banners (showWarning (showWarning t)) = 1 \<and> banner_before (showWarning (showWarning t)))"
  using banner_before_showWarning [of t]
  by (auto simp: showWarning_idem banners_showWarning banner_inv_def)

theorem showWarning_twice_witness:
  "banner_inv (rendered_turn (js ''What is X?'') (js ''X is Y'')) \<and>
   before (showWarning (showWarning (rendered_turn (js ''What is X?'') (js ''X is Y''))))
     = [warning] \<and>
   banners (showWarning (showWarning (rendered_turn (js ''What is X?'') (js ''X is Y'')))) = 1 \<and>
   banner_before (showWarning (showWarning (rendered_turn (js ''What is X?'') (js ''X is Y''))))"
proof -
  let ?t = "rendered_turn (js ''What is X?'') (js ''X is Y'')"
  have inv: "banner_inv ?t" by (rule banner_inv_rendered_turn)
  have "showWarning ?t = ?t\<lparr>before := before ?t @ [warning]\<rparr>"
    by (rule showWarning_cases(1)) (rule banners_rendered_turn)
  then have b: "before (showWarning ?t) = [warning]" by (simp add: rendered_turn_def)
  note tw = showWarning_twice [of ?t]
  from tw have idem: "showWarning (showWarning ?t) = showWarning ?t" by (rule conjunct1)
  from tw have "banner_inv ?t \<longrightarrow>
      banners (showWarning (showWarning ?t)) = 1 \<and> banner_before (showWarning (showWarning ?t))"
    by (rule conjunct2)
  then have two: "banners (showWarning (showWarning ?t)) = 1 \<and>
      banner_before (showWarning (showWarning ?t))"
    using inv by (rule mp)
  from b have "before (showWarning (showWarning ?t)) = [warning]" by (simp only: idem)
  with inv two show ?thesis by simp
qed

section \<open>Properties of the reconciliation controller\<close>

text \<open>
  \<open>N\<close> is the conversion of strings to numbers of the runtime; every result holds for every
  \<open>N\<close>. In the examples it is the conversion that reads no numeral, \<open>\<lambda>s. NaN\<close>: the one
  string converted there is \<open>"x1"\<close>, which is not a numeral.
\<close>

lemma add_one_integer:
  "add_one N (Primitive (Number (Finite i 0))) = Inr (Number (Finite (i + 1) 0))"
  by (simp add: add_one_def ToNumber_def plus_one_def)

lemma slice_end_integer:
  "slice_end N (Primitive (Number (Finite i 0))) n =
     Inr (Integral (if i + 1 = 0 then int n else i + 1))"
  by (simp add: slice_end_def add_one_integer ToBoolean_def ToNumber_def ToIntegerOrInfinity_def)

lemma slice_end_undefined: "slice_end N (Primitive Undefined) n = Inr (Integral (int n))"
  by (simp add: slice_end_def add_one_def ToBoolean_def ToNumber_def plus_one_def
      ToIntegerOrInfinity_def)

lemma slice0_Integral_length: "slice0 (Integral (int (length xs))) xs = xs"
  by simp

lemma slice0_take: "\<exists>m \<le> length xs. slice0 e xs = take m xs"
proof (cases e)
  case MinusInfinity
  then have "slice0 e xs = take 0 xs" by simp
  then show ?thesis by blast
next
  case (Integral j)
  let ?m = "nat (if j < 0 then max (int (length xs) + j) 0 else min j (int (length xs)))"
  have "slice0 e xs = take (min ?m (length xs)) xs" using Integral by (simp add: min_def)
  then show ?thesis by (metis min.cobounded2)
next
  case PlusInfinity
  then have "slice0 e xs = take (length xs) xs" by simp
  then show ?thesis by blast
qed

lemma chatBubbles_prefix:
  "chatBubbles N ev pg = Inr bs \<Longrightarrow> \<exists>n \<le> length (turns pg). bs = take n (turns pg)"
  using slice0_take [of "turns pg"]
  by (auto simp: chatBubbles_def split: sum.splits)

lemma chatBubbles_retry:
  "k < length (turns pg) \<Longrightarrow> ev_index ev = Primitive (Number (Finite (int k) 0)) \<Longrightarrow>
     chatBubbles N ev pg = Inr (take (Suc k) (turns pg))"
  by (simp add: chatBubbles_def slice_end_integer min_def nat_add_distrib)


lemma chatBubbles_undefined:
  "ev_index ev = Primitive Undefined \<Longrightarrow> chatBubbles N ev pg = Inr (turns pg)"
  by (simp add: chatBubbles_def slice_end_undefined)


text \<open>
  Beyond \<open>2 ^ 53\<close> the sum of an integer and \<open>1\<close> is kept exact by \<open>plus_one\<close>, where the
  runtime rounds it to a double. The listener cannot tell the two apart: both are truthy,
  and \<open>slice\<close> on an array of fewer than \<open>2 ^ 53\<close> elements gives the same for both.
\<close>

lemma bit_length_bounds: "0 < n \<Longrightarrow> 2 ^ (bit_length n - 1) \<le> n \<and> n < 2 ^ bit_length n"
proof (induction n rule: bit_length.induct)
  case (1 n)
  show ?case
  proof (cases "n div 2 = 0")
    case True
    with 1(2) have "n = 1" by (simp add: div_eq_0_iff) 
    then show ?thesis by (simp add: bit_length.simps)
  next
    case False
    then have pos: "0 < n div 2" by simp
    from 1(1) [OF _ pos] 1(2)
    have ih: "2 ^ (bit_length (n div 2) - 1) \<le> n div 2" "n div 2 < 2 ^ bit_length (n div 2)"
      by simp_all
    have bl: "bit_length n = Suc (bit_length (n div 2))"
      using 1(2) by (subst bit_length.simps) simp
    have p: "0 < bit_length (n div 2)" using pos by (subst bit_length.simps) simp
    then obtain b where b: "bit_length (n div 2) = Suc b" by (cases "bit_length (n div 2)") auto
    from ih b have "2 ^ b \<le> n div 2" "n div 2 < 2 * 2 ^ b" by simp_all
    then have "2 * 2 ^ b \<le> n" "n < 2 * (2 * 2 ^ b)" by arith+
    then show ?thesis by (simp add: bl b)
  qed
qed

lemma round_to_double_large:
  assumes "2 ^ 53 < \<bar>m\<bar>"
  shows "\<exists>m' s. round_to_double m e = Finite m' (e + int s) \<and> 2 ^ 52 \<le> \<bar>m'\<bar> \<and> 0 < s \<and>
           (0 < m \<longrightarrow> 0 < m') \<and> (m < 0 \<longrightarrow> m' < 0)"
proof -
  define n where "n = nat \<bar>m\<bar>"
  define s where "s = bit_length n - 53"
  define q where "q = \<bar>m\<bar> div 2 ^ s"
  define r where "r = \<bar>m\<bar> mod 2 ^ s"
  define q' where "q' = (if 2 ^ s < 2 * r \<or> (2 * r = 2 ^ s \<and> odd q) then q + 1 else q)"
  from assms have npos: "0 < n" and nm: "int n = \<bar>m\<bar>" by (simp_all add: n_def)
  from bit_length_bounds [OF npos]
  have lo: "2 ^ (bit_length n - 1) \<le> n" and hi: "n < 2 ^ bit_length n" by simp_all
  have big: "(2::nat) ^ 53 < n" using assms nm by (metis of_nat_less_iff of_nat_numeral of_nat_power)
  have "53 < bit_length n"
  proof (rule ccontr)
    assume "\<not> 53 < bit_length n"
    then have "bit_length n \<le> 53" by simp
    then have "(2::nat) ^ bit_length n \<le> 2 ^ 53" by (rule power_increasing) simp
    with hi big show False by simp
  qed
  then have spos: "0 < s" and sb: "bit_length n - 1 = s + 52" by (simp_all add: s_def)
  from lo sb have "(2::nat) ^ (s + 52) \<le> n" by simp
  then have "int ((2::nat) ^ (s + 52)) \<le> int n" by (simp only: of_nat_le_iff)
  then have "(2::int) ^ 52 * 2 ^ s \<le> \<bar>m\<bar>" by (simp add: nm power_add mult.commute)
  then have "((2::int) ^ 52 * 2 ^ s) div 2 ^ s \<le> \<bar>m\<bar> div 2 ^ s"
    by (rule zdiv_mono1) simp
  then have "(2::int) ^ 52 \<le> \<bar>m\<bar> div 2 ^ s" by simp
  then have q52: "2 ^ 52 \<le> q" by (simp add: q_def)
  then have q'52: "2 ^ 52 \<le> q'" by (simp add: q'_def)
  have r: "round_to_double m e = Finite (sgn m * q') (e + int s)"
    using assms by (simp add: round_to_double_def Let_def n_def s_def q_def r_def q'_def)
  have "2 ^ 52 \<le> \<bar>sgn m * q'\<bar>" using q'52 assms by (simp add: abs_mult)
  moreover have "0 < m \<longrightarrow> 0 < sgn m * q'" using q'52 by auto
  moreover have "m < 0 \<longrightarrow> sgn m * q' < 0" using q'52 by auto
  ultimately show ?thesis using r spos by blast
qed

lemma rounded_sum_slices_alike:
  assumes "int (length xs) < 2 ^ 53"
  shows "ToBoolean (Number (round_to_double j 0)) = ToBoolean (Number (Finite j 0)) \<and>
         slice0 (ToIntegerOrInfinity (round_to_double j 0)) xs
           = slice0 (ToIntegerOrInfinity (Finite j 0)) xs"
proof (cases "\<bar>j\<bar> \<le> 2 ^ 53")
  case True
  then show ?thesis by (simp add: round_to_double_def)
next
  case False
  then have big: "2 ^ 53 < \<bar>j\<bar>" by simp
  from round_to_double_large [OF big, of 0] obtain m' s
    where r: "round_to_double j 0 = Finite m' (int s)" and m: "2 ^ 52 \<le> \<bar>m'\<bar>" and s: "0 < s"
      and sg: "0 < j \<longrightarrow> 0 < m'" "j < 0 \<longrightarrow> m' < 0"
    by auto
  have "(2::int) ^ 1 \<le> 2 ^ s" using s by (intro power_increasing) simp_all
  then have two: "(2::int) \<le> 2 ^ s" by simp
  have "2 ^ 52 * 2 \<le> \<bar>m'\<bar> * 2 ^ s" using m two by (intro mult_mono) simp_all
  then have v: "2 ^ 53 \<le> \<bar>m' * 2 ^ s\<bar>" by (simp add: abs_mult)
  have i: "ToIntegerOrInfinity (round_to_double j 0) = Integral (m' * 2 ^ s)"
    by (simp add: r ToIntegerOrInfinity_def)
  have i0: "ToIntegerOrInfinity (Finite j 0) = Integral j"
    by (simp add: ToIntegerOrInfinity_def)
  have nz: "m' \<noteq> 0" "j \<noteq> 0" using m big by auto
  have tb: "ToBoolean (Number (round_to_double j 0)) = ToBoolean (Number (Finite j 0))"
    using nz by (simp add: r ToBoolean_def)
  show ?thesis
  proof (cases "0 < j")
    case True
    with sg have "0 < m'" by simp
    then have "0 < m' * 2 ^ s" by simp
    with v have "2 ^ 53 \<le> m' * 2 ^ s" by simp
    moreover from True big have "2 ^ 53 < j" by simp
    ultimately show ?thesis using assms tb unfolding i i0 by simp
  next
    case False
    with nz have neg: "j < 0" by simp
    with sg have "m' < 0" by simp
    then have "m' * 2 ^ s < 0" by (simp add: mult_neg_pos)
    with v have "m' * 2 ^ s \<le> - (2 ^ 53)" by simp
    moreover from neg big have "j < - (2 ^ 53)" by simp
    ultimately show ?thesis using assms tb unfolding i i0 by (simp add: max_def)
  qed
qed

text \<open>The only exception of \<open>index + 1\<close> is the one of a BigInt.\<close>

lemma add_one_cases:
  "(\<exists>b. ToPrimitive v = BigInt b \<and> add_one N v = Inl TypeError) \<or>
   (\<exists>s. add_one N v = Inr (String (s @ js ''1''))) \<or>
   (\<exists>x. add_one N v = Inr (Number x))"
  by (cases "ToPrimitive v") (simp_all add: add_one_def ToNumber_def)





lemma on_message_accepted:
  assumes "ev_source_is_window ev" and "ev_type ev = js ''DEEPSEEK_CENSORSHIP''"
    and "chatBubbles N ev pg = Inr (take n (turns pg))" and "0 < n" and "n \<le> length (turns pg)"
  shows "on_message N ev pg = Inr (Some
           (pg\<lparr>turns := (turns pg)[n - 1 := (turns pg ! (n - 1))\<lparr>inner := set_innerText placeholder\<rparr>]\<rparr>,
            \<lparr>req_action = js ''checkCensorship'', req_content = ev_content ev,
             req_history = concat (map (prompts (ev_manual ev)) (take n (turns pg))),
             req_manual = (ev_manual ev = Some True)\<rparr>,
            \<lparr>pending_target = n - 1,
             pending_prompts = concat (map (prompts (ev_manual ev)) (take n (turns pg))),
             pending_snapshot = inner (turns pg ! (n - 1))\<rparr>))"
proof -
  from assms(4,5) have ne: "take n (turns pg) \<noteq> []" by auto
  from assms(4,5) have len: "length (take n (turns pg)) = n" by simp
  from assms(4) have nth: "take n (turns pg) ! (n - 1) = turns pg ! (n - 1)" by simp
  show ?thesis
    unfolding on_message_def Let_def assms(3)
    using assms(1,2,5) ne nth by (simp add: min_absorb2)
qed

lemma on_message_result:
  assumes "on_message N ev pg = Inr (Some (pg1, rq, pend))"
  shows "\<exists>n. 0 < n \<and> n \<le> length (turns pg) \<and>
           chatBubbles N ev pg = Inr (take n (turns pg)) \<and>
           pg1 = pg\<lparr>turns := (turns pg)[n - 1 := (turns pg ! (n - 1))\<lparr>inner := set_innerText placeholder\<rparr>]\<rparr> \<and>
           rq = \<lparr>req_action = js ''checkCensorship'', req_content = ev_content ev,
                 req_history = concat (map (prompts (ev_manual ev)) (take n (turns pg))),
                 req_manual = (ev_manual ev = Some True)\<rparr> \<and>
           pend = \<lparr>pending_target = n - 1,
                   pending_prompts = concat (map (prompts (ev_manual ev)) (take n (turns pg))),
                   pending_snapshot = inner (turns pg ! (n - 1))\<rparr>"
proof -
  from assms have a: "ev_source_is_window ev" "ev_type ev = js ''DEEPSEEK_CENSORSHIP''"
    by (auto simp: on_message_def split: if_splits)
  from assms a obtain bs where bs: "chatBubbles N ev pg = Inr bs" and ne: "bs \<noteq> []"
    by (auto simp: on_message_def Let_def split: sum.splits if_splits)
  obtain n where n: "n \<le> length (turns pg)" "bs = take n (turns pg)"
    using chatBubbles_prefix [OF bs] by blast
  with ne have pos: "0 < n" by (cases n) auto
  have sc: "chatBubbles N ev pg = Inr (take n (turns pg))" using bs n(2) by simp
  from on_message_accepted [OF a sc pos n(1)] assms show ?thesis
    using n sc pos by auto
qed

lemma length_prompts: "length (concat (map (prompts m) ts)) = 2 * length ts"
  by (induction ts) (simp_all add: prompts_def)

lemma hideWarning_keeps:
  assumes "banner_inv t"
  shows "inner (hideWarning t) = inner t" and "after (hideWarning t) = after t"
    and "userRow (hideWarning t) = userRow t"
  using banner_inv_parts [OF assms]
  by (simp_all add: hideWarning_def querySelector_None_iff remove_first_none)

lemma count_button: "count_class CSS_CENSORED_WARNING_CLASS [createExternalAiButton] = 0"
  by (simp add: createExternalAiButton_def CSS_CENSORED_WARNING_CLASS_def
      ACTION_ICON_IDENTITY_CLASS_def)

lemma count_append_to_first_element:
  "count_class c [b] = 0 \<Longrightarrow> count_class c (append_to_first_element b ks) = count_class c ks"
proof (induction b ks rule: append_to_first_element.induct)
  case (1 b)
  then show ?case by simp
next
  case (2 b s ns)
  then show ?case by simp
next
  case (3 b cs ks ns)
  then show ?case by (simp add: count_class_append)
qed

lemma appendExternalAiButton_keeps:
  assumes "appendExternalAiButton t = Inr t'"
  shows "inner t' = inner t" and "before t' = before t" and "userRow t' = userRow t"
    and "banners t' = banners t"
proof -
  from assms obtain cs ks rest where a: "after t = Elem cs ks # rest"
    by (auto simp: appendExternalAiButton_def split: list.splits node.splits)
  from assms a have t': "t' = t \<or>
      t' = t\<lparr>after := Elem cs (append_to_first_element createExternalAiButton ks) # rest\<rparr>"
    by (auto simp: appendExternalAiButton_def split: if_splits)
  then show "inner t' = inner t" and "before t' = before t" and "userRow t' = userRow t"
    by auto
  from t' a show "banners t' = banners t"
    by (auto simp: banners_parts count_append_to_first_element count_button)
qed

lemma appendExternalAiButton_ok:
  "after t \<noteq> [] \<Longrightarrow> is_element (hd (after t)) \<Longrightarrow> \<exists>t'. appendExternalAiButton t = Inr t'"
  by (cases "after t"; cases "hd (after t)")
     (auto simp: appendExternalAiButton_def)

lemma on_response_other_turns:
  "length (turns (fst (on_response pend resp pg))) = length (turns pg) \<and>
   (\<forall>j. j \<noteq> pending_target pend \<longrightarrow>
      turns (fst (on_response pend resp pg)) ! j = turns pg ! j) \<and>
   location_pathname (fst (on_response pend resp pg)) = location_pathname pg"
  by (auto simp: on_response_def save_page_def Let_def split: option.splits sum.splits)

text \<open>The \<open>else\<close> branch of the callback on a turn that satisfies the banner invariant.\<close>

lemma on_response_restored:
  assumes r: "replacement_of resp = None"
    and k: "pending_target pend < length (turns pg)"
    and inv: "banner_inv ((turns pg ! pending_target pend)\<lparr>inner := pending_snapshot pend\<rparr>)"
  shows "inner (turns (fst (on_response pend resp pg)) ! pending_target pend)
           = pending_snapshot pend"
    and "banners (turns (fst (on_response pend resp pg)) ! pending_target pend) = 0"
    and "after (turns pg ! pending_target pend) \<noteq> [] \<Longrightarrow>
         is_element (hd (after (turns pg ! pending_target pend))) \<Longrightarrow>
           \<exists>pgx. on_response pend resp pg =
             save_page
               (butlast (pending_prompts pend) @
                  [\<lparr>role = Assistant, content = innerText_of (pending_snapshot pend),
                    censored = Some False\<rparr>]) pgx \<and>
             location_pathname pgx = location_pathname pg \<and>
             storage_item pgx = storage_item pg"
proof -
  let ?k = "pending_target pend"
  let ?t0 = "(turns pg ! ?k)\<lparr>inner := pending_snapshot pend\<rparr>"
  let ?t1 = "hideWarning ?t0"
  have i1: "inner ?t1 = pending_snapshot pend" using hideWarning_keeps(1) [OF inv] by simp
  have a1: "after ?t1 = after (turns pg ! ?k)" using hideWarning_keeps(2) [OF inv] by simp
  have b1: "banners ?t1 = 0" using banner_inv_parts(3) [OF inv] by (rule banners_hideWarning)
  show "inner (turns (fst (on_response pend resp pg)) ! ?k) = pending_snapshot pend"
  proof (cases "appendExternalAiButton ?t1")
    case (Inl e)
    with r k i1 show ?thesis by (simp add: on_response_def Let_def)
  next
    case (Inr t2)
    with r k i1 appendExternalAiButton_keeps(1) [OF Inr] show ?thesis
      by (simp add: on_response_def Let_def save_page_def split: sum.splits)
  qed
  show "banners (turns (fst (on_response pend resp pg)) ! ?k) = 0"
  proof (cases "appendExternalAiButton ?t1")
    case (Inl e)
    with r k b1 show ?thesis by (simp add: on_response_def Let_def)
  next
    case (Inr t2)
    with r k b1 appendExternalAiButton_keeps(4) [OF Inr] show ?thesis
      by (simp add: on_response_def Let_def save_page_def split: sum.splits)
  qed
  assume "after (turns pg ! ?k) \<noteq> []" and "is_element (hd (after (turns pg ! ?k)))"
  with a1 obtain t2 where t2: "appendExternalAiButton ?t1 = Inr t2"
    using appendExternalAiButton_ok [of ?t1] by auto
  have i2: "inner t2 = pending_snapshot pend"
    using appendExternalAiButton_keeps(1) [OF t2] i1 by simp
  let ?pgx = "pg\<lparr>turns := (turns pg)[?k := t2]\<rparr>"
  from r k t2 i2 have "on_response pend resp pg =
             save_page
               (butlast (pending_prompts pend) @
                  [\<lparr>role = Assistant, content = innerText_of (pending_snapshot pend),
                    censored = Some False\<rparr>]) ?pgx"
    by (simp add: on_response_def Let_def)
  moreover have "location_pathname ?pgx = location_pathname pg"
    and "storage_item ?pgx = storage_item pg"
    by simp_all
  ultimately show "\<exists>pgx. on_response pend resp pg =
             save_page
               (butlast (pending_prompts pend) @
                  [\<lparr>role = Assistant, content = innerText_of (pending_snapshot pend),
                    censored = Some False\<rparr>]) pgx \<and>
             location_pathname pgx = location_pathname pg \<and>
             storage_item pgx = storage_item pg"
    by blast
qed

lemma banner_inv_inner:
  "banner_inv t \<Longrightarrow> count_class CSS_CENSORED_WARNING_CLASS ks = 0 \<Longrightarrow>
     banner_inv (t\<lparr>inner := ks\<rparr>)"
proof -
  assume a: "banner_inv t" and z: "count_class CSS_CENSORED_WARNING_CLASS ks = 0"
  from a have i: "count_class CSS_CENSORED_WARNING_CLASS (inner t) = 0"
    by (rule banner_inv_parts(1))
  have b: "banners (t\<lparr>inner := ks\<rparr>) = banners t"
    by (simp add: banners_parts i z)
  have c: "banner_before (t\<lparr>inner := ks\<rparr>) = banner_before t"
    by (simp add: banner_before_def)
  from a show ?thesis unfolding banner_inv_def b c .
qed

lemma count_set_innerText: "count_class c (set_innerText s) = 0"
  by (simp add: set_innerText_def)

lemma banner_inv_appendExternalAiButton:
  assumes "banner_inv t" and "appendExternalAiButton t = Inr t'"
  shows "banner_inv t'"
proof -
  have "banners t' = banners t" and "before t' = before t"
    using appendExternalAiButton_keeps [OF assms(2)] by simp_all
  with assms(1) show ?thesis by (simp add: banner_inv_def banner_before_def)
qed

lemma list_all_update: "list_all P xs \<Longrightarrow> P x \<Longrightarrow> list_all P (xs[k := x])"
  unfolding list_all_iff using set_update_subset_insert [of xs k x] by auto

lemma on_message_banner_inv:
  assumes "list_all banner_inv (turns pg)" and "on_message N ev pg = Inr (Some (pg1, rq, pend))"
  shows "list_all banner_inv (turns pg1)"
    and "count_class CSS_CENSORED_WARNING_CLASS (pending_snapshot pend) = 0"
proof -
  from on_message_result [OF assms(2)] obtain n
    where n: "0 < n" "n \<le> length (turns pg)"
      and pg1: "pg1 = pg\<lparr>turns := (turns pg)[n - 1 :=
                  (turns pg ! (n - 1))\<lparr>inner := set_innerText placeholder\<rparr>]\<rparr>"
      and pend: "pending_snapshot pend = inner (turns pg ! (n - 1))"
    by auto
  from n assms(1) have t: "banner_inv (turns pg ! (n - 1))"
    by (simp add: list_all_length)
  then have "banner_inv ((turns pg ! (n - 1))\<lparr>inner := set_innerText placeholder\<rparr>)"
    by (rule banner_inv_inner) (rule count_set_innerText)
  with assms(1) show "list_all banner_inv (turns pg1)"
    unfolding pg1 by (simp add: list_all_update)
  from t show "count_class CSS_CENSORED_WARNING_CLASS (pending_snapshot pend) = 0"
    unfolding pend by (rule banner_inv_parts(1))
qed

lemma on_response_banner_inv:
  assumes "list_all banner_inv (turns pg)"
    and "count_class CSS_CENSORED_WARNING_CLASS (pending_snapshot pend) = 0"
  shows "list_all banner_inv (turns (fst (on_response pend resp pg)))"
proof (cases "pending_target pend < length (turns pg)")
  case False
  with assms(1) show ?thesis by (simp add: on_response_def)
next
  case True
  let ?k = "pending_target pend"
  from True assms(1) have el: "banner_inv (turns pg ! ?k)" by (simp add: list_all_length)
  show ?thesis
  proof (cases "replacement_of resp")
    case (Some r)
    let ?t1 = "showWarning (turns pg ! ?k)"
    have t1: "banner_inv ?t1" using el by (rule banner_inv_showWarning)
    show ?thesis
    proof (cases "appendExternalAiButton ?t1")
      case (Inl e)
      with Some True t1 assms(1) show ?thesis
        by (simp add: on_response_def Let_def list_all_update)
    next
      case (Inr t2)
      from t1 Inr have "banner_inv t2" by (rule banner_inv_appendExternalAiButton)
      then have "banner_inv (t2\<lparr>inner := set_innerText r\<rparr>)"
        by (rule banner_inv_inner) (rule count_set_innerText)
      with Some True Inr assms(1) show ?thesis
        by (simp add: on_response_def Let_def save_page_def list_all_update split: sum.splits)
    qed
  next
    case None
    let ?t1 = "hideWarning ((turns pg ! ?k)\<lparr>inner := pending_snapshot pend\<rparr>)"
    have "banner_inv ((turns pg ! ?k)\<lparr>inner := pending_snapshot pend\<rparr>)"
      using el assms(2) by (rule banner_inv_inner)
    then have t1: "banner_inv ?t1" by (rule banner_inv_hideWarning)
    show ?thesis
    proof (cases "appendExternalAiButton ?t1")
      case (Inl e)
      with None True t1 assms(1) show ?thesis
        by (simp add: on_response_def Let_def list_all_update)
    next
      case (Inr t2)
      from t1 Inr have "banner_inv t2" by (rule banner_inv_appendExternalAiButton)
      with None True Inr assms(1) show ?thesis
        by (simp add: on_response_def Let_def save_page_def list_all_update split: sum.splits)
    qed
  qed
qed

lemma user_text_rendered_turn: "user_text (rendered_turn q a) = trim q"
  by (simp add: user_text_def rendered_turn_def firstElementChild_def)

lemma innerText_rendered_turn: "innerText_of (inner (rendered_turn q a)) = a"
  by (simp add: innerText_of_def rendered_turn_def)

lemma hasCensorshipWarning_rendered_turn:
  "hasCensorshipWarning (rendered_turn q a) m = (m = Some True)"
  using banners_rendered_turn [of q a]
  by (simp add: hasCensorshipWarning_def banners_def querySelector_None_iff)
     (simp add: rendered_turn_def)

lemma prompts_rendered_turn:
  "prompts m (rendered_turn q a) =
     [\<lparr>role = User, content = cleanText (trim q), censored = None\<rparr>,
      \<lparr>role = Assistant, content = cleanText a, censored = Some (m = Some True)\<rparr>]"
  by (simp add: prompts_def user_text_rendered_turn innerText_rendered_turn
      hasCensorshipWarning_rendered_turn)

lemma clean_what: "cleanText (trim (js ''What is X?'')) = js ''What is X?''"
  by (simp add: clean_ev)

lemma clean_xy: "cleanText (js ''X is Y'') = js ''X is Y''"
  by (simp add: clean_ev)

lemma clean_and: "cleanText (trim (js ''And Z?'')) = js ''And Z?''"
  by (simp add: clean_ev)

lemma clean_z: "cleanText (js ''I cannot discuss Z 1/2'') = js ''I cannot discuss Z''"
  by (simp add: clean_ev)

lemma chat_id_rendered_page:
  "getChatIdFromUrl (location_pathname rendered_page) = Some (js ''abc-123'')"
  by (simp add: rendered_page_def url_ev)

lemma on_message_other_turns:
  assumes "on_message N ev pg = Inr (Some (pg1, rq, pend))"
  shows "length (turns pg1) = length (turns pg)"
    and "j \<noteq> pending_target pend \<Longrightarrow> turns pg1 ! j = turns pg ! j"
    and "inner (turns pg1 ! pending_target pend) = set_innerText placeholder"
proof -
  from on_message_result [OF assms] obtain n
    where n: "0 < n" "n \<le> length (turns pg)"
      and pg1: "pg1 = pg\<lparr>turns := (turns pg)[n - 1 :=
                  (turns pg ! (n - 1))\<lparr>inner := set_innerText placeholder\<rparr>]\<rparr>"
      and pend: "pend = \<lparr>pending_target = n - 1,
                   pending_prompts = concat (map (prompts (ev_manual ev)) (take n (turns pg))),
                   pending_snapshot = inner (turns pg ! (n - 1))\<rparr>"
    by auto
  have tk: "pending_target pend = n - 1" by (simp add: pend)
  have t1: "turns pg1 = (turns pg)[n - 1 :=
              (turns pg ! (n - 1))\<lparr>inner := set_innerText placeholder\<rparr>]"
    by (simp add: pg1)
  show "length (turns pg1) = length (turns pg)" by (simp add: t1)
  show "j \<noteq> pending_target pend \<Longrightarrow> turns pg1 ! j = turns pg ! j"
    unfolding tk t1 by simp
  from n show "inner (turns pg1 ! pending_target pend) = set_innerText placeholder"
    unfolding tk t1 by simp
qed

text \<open>
  Claim C1. Let the listener accept a detection event, and let the answer be absent or
  carry no (or an empty) replacement. On a turn in the state the script keeps its banners
  in, the callback leaves the affected bubble with the content it had before the placeholder
  was set, and no banner in its container. When the bubble is followed by its action row
  (an element), the pathname holds a conversation id \<open>c\<close> and the stored item is not
  corrupt, the callback ends without an exception and the history persisted under \<open>c\<close> is
  the extracted one with its last message replaced by the assistant message of the restored
  text, marked \<open>censored: false\<close>.
\<close>

theorem restored_branch:
  assumes "on_message N ev pg = Inr (Some (pg1, rq, pend))"
    and "replacement_of resp = None"
    and "banner_inv (turns pg ! pending_target pend)"
  shows "pending_target pend < length (turns pg) \<and>
         inner (turns (fst (on_response pend resp pg1)) ! pending_target pend)
           = inner (turns pg ! pending_target pend) \<and>
         banners (turns (fst (on_response pend resp pg1)) ! pending_target pend) = 0 \<and>
         (after (turns pg ! pending_target pend) \<noteq> [] \<and>
          is_element (hd (after (turns pg ! pending_target pend))) \<and>
          getChatIdFromUrl (location_pathname pg) = Some c \<and>
          storage_item pg \<noteq> Unparseable \<longrightarrow>
            snd (on_response pend resp pg1) = None \<and>
            restoreHistory (Some c) (storage_item (fst (on_response pend resp pg1))) =
              Inr (History (butlast (req_history rq) @
                     [\<lparr>role = Assistant,
                       content = innerText_of (inner (turns pg ! pending_target pend)),
                       censored = Some False\<rparr>])))"
proof -
  from on_message_result [OF assms(1)] obtain n
    where n: "0 < n" "n \<le> length (turns pg)"
      and pg1: "pg1 = pg\<lparr>turns := (turns pg)[n - 1 :=
                  (turns pg ! (n - 1))\<lparr>inner := set_innerText placeholder\<rparr>]\<rparr>"
      and rq: "req_history rq = concat (map (prompts (ev_manual ev)) (take n (turns pg)))"
      and pend: "pend = \<lparr>pending_target = n - 1,
                   pending_prompts = concat (map (prompts (ev_manual ev)) (take n (turns pg))),
                   pending_snapshot = inner (turns pg ! (n - 1))\<rparr>"
    by auto
  define k where "k = n - 1"
  have tk: "pending_target pend = k" by (simp add: pend k_def)
  have snap: "pending_snapshot pend = inner (turns pg ! k)" by (simp add: pend k_def)
  have pp: "pending_prompts pend = req_history rq" by (simp add: pend rq)
  have lt: "k < length (turns pg)" using n by (simp add: k_def)
  have t1: "turns pg1 = (turns pg)[k := (turns pg ! k)\<lparr>inner := set_innerText placeholder\<rparr>]"
    and p1: "location_pathname pg1 = location_pathname pg"
    and s1: "storage_item pg1 = storage_item pg"
    by (simp_all add: pg1 k_def)
  have lt1: "pending_target pend < length (turns pg1)" using lt by (simp add: tk t1)
  have el: "(turns pg1 ! k)\<lparr>inner := inner (turns pg ! k)\<rparr> = turns pg ! k"
    using lt by (simp add: t1)
  have inv: "banner_inv ((turns pg1 ! pending_target pend)\<lparr>inner := pending_snapshot pend\<rparr>)"
    using assms(3) by (simp only: tk snap el)
  have aft: "after (turns pg1 ! k) = after (turns pg ! k)"
    using lt by (simp add: t1)
  note R = on_response_restored [OF assms(2) lt1 inv, unfolded tk snap aft]
  have P: "snd (on_response pend resp pg1) = None \<and>
          restoreHistory (Some c) (storage_item (fst (on_response pend resp pg1))) =
            Inr (History (butlast (req_history rq) @
                   [\<lparr>role = Assistant, content = innerText_of (inner (turns pg ! k)),
                     censored = Some False\<rparr>]))"
    if c: "getChatIdFromUrl (location_pathname pg) = Some c"
      and h: "storage_item pg \<noteq> Unparseable"
      and a: "after (turns pg ! k) \<noteq> []" "is_element (hd (after (turns pg ! k)))"
  proof -
    let ?ms = "butlast (req_history rq) @
                   [\<lparr>role = Assistant, content = innerText_of (inner (turns pg ! k)),
                     censored = Some False\<rparr>]"
    from R(3) [OF a] obtain pgx
      where eq: "on_response pend resp pg1 = save_page ?ms pgx"
        and path: "location_pathname pgx = location_pathname pg"
        and item: "storage_item pgx = storage_item pg"
      unfolding pp p1 s1 by blast
    from restore_after_save [OF c h, of ?ms] obtain it'
      where s: "saveHistory (location_pathname pg) ?ms (storage_item pg) = Inr it'"
        and r: "restoreHistory (Some c) it' = Inr (History ?ms)"
      by blast
    from s have "save_page ?ms pgx = (pgx\<lparr>storage_item := it'\<rparr>, None)"
      unfolding save_page_def path item by simp
    with eq have res: "on_response pend resp pg1 = (pgx\<lparr>storage_item := it'\<rparr>, None)"
      by simp
    show ?thesis unfolding res using r by simp
  qed
  show ?thesis
    unfolding tk
  proof (intro conjI impI)
    show "k < length (turns pg)" by (rule lt)
    show "inner (turns (fst (on_response pend resp pg1)) ! k) = inner (turns pg ! k)"
      by (rule R(1))
    show "banners (turns (fst (on_response pend resp pg1)) ! k) = 0"
      by (rule R(2))
  next
    assume "after (turns pg ! k) \<noteq> [] \<and> is_element (hd (after (turns pg ! k))) \<and>
      getChatIdFromUrl (location_pathname pg) = Some c \<and> storage_item pg \<noteq> Unparseable"
    then show "snd (on_response pend resp pg1) = None" using P by blast
  next
    assume "after (turns pg ! k) \<noteq> [] \<and> is_element (hd (after (turns pg ! k))) \<and>
      getChatIdFromUrl (location_pathname pg) = Some c \<and> storage_item pg \<noteq> Unparseable"
    then show "restoreHistory (Some c) (storage_item (fst (on_response pend resp pg1))) =
            Inr (History (butlast (req_history rq) @
                   [\<lparr>role = Assistant, content = innerText_of (inner (turns pg ! k)),
                     censored = Some False\<rparr>]))"
      using P by blast
  qed
qed

theorem restored_branch_witness:
  "\<exists>pg1 rq pend.
     on_message (\<lambda>s. NaN) (detection (Primitive Undefined) None) rendered_page = Inr (Some (pg1, rq, pend)) \<and>
     replacement_of (Some \<lparr>replacement = None\<rparr>) = None \<and>
     pending_target pend = 1 \<and>
     banner_inv (turns rendered_page ! 1) \<and>
     inner (turns pg1 ! 1) = set_innerText placeholder \<and>
     inner (turns (fst (on_response pend (Some \<lparr>replacement = None\<rparr>) pg1)) ! 1)
       = [Elem [] [TextNode (js ''I cannot discuss Z 1/2'')]] \<and>
     banners (turns (fst (on_response pend (Some \<lparr>replacement = None\<rparr>) pg1)) ! 1) = 0 \<and>
     snd (on_response pend (Some \<lparr>replacement = None\<rparr>) pg1) = None \<and>
     restoreHistory (Some (js ''abc-123''))
        (storage_item (fst (on_response pend (Some \<lparr>replacement = None\<rparr>) pg1))) =
       Inr (History [\<lparr>role = User, content = js ''What is X?'', censored = None\<rparr>,
            \<lparr>role = Assistant, content = js ''X is Y'', censored = Some False\<rparr>,
            \<lparr>role = User, content = js ''And Z?'', censored = None\<rparr>,
            \<lparr>role = Assistant, content = js ''I cannot discuss Z 1/2'',
             censored = Some False\<rparr>])"
proof -
  let ?ev = "detection (Primitive Undefined) None"
  let ?resp = "Some \<lparr>replacement = None\<rparr>"
  have ev: "ev_source_is_window ?ev" "ev_type ?ev = js ''DEEPSEEK_CENSORSHIP''"
    "ev_manual ?ev = None"
    by (simp_all add: detection_def)
  have scope: "chatBubbles (\<lambda>s. NaN) ?ev rendered_page = Inr (take 2 (turns rendered_page))"
    by (simp add: chatBubbles_undefined detection_def rendered_page_def)
  have len: "(2::nat) \<le> length (turns rendered_page)" by (simp add: rendered_page_def)
  from on_message_accepted [OF ev(1,2) scope _ len] obtain pg1 rq pend
    where om: "on_message (\<lambda>s. NaN) ?ev rendered_page = Inr (Some (pg1, rq, pend))"
      and tk: "pending_target pend = 1"
      and h: "req_history rq = concat (map (prompts None) (take 2 (turns rendered_page)))"
    by (simp add: ev(3))
  have r: "replacement_of ?resp = None" by (simp add: replacement_of_def truthy_def)
  have t1: "turns rendered_page ! 1 = rendered_turn (js ''And Z?'') (js ''I cannot discuss Z 1/2'')"
    by (simp add: rendered_page_def)
  have inv: "banner_inv (turns rendered_page ! pending_target pend)"
    unfolding tk t1 by (rule banner_inv_rendered_turn)
  have hist: "req_history rq =
       [\<lparr>role = User, content = js ''What is X?'', censored = None\<rparr>,
        \<lparr>role = Assistant, content = js ''X is Y'', censored = Some False\<rparr>,
        \<lparr>role = User, content = js ''And Z?'', censored = None\<rparr>,
        \<lparr>role = Assistant, content = js ''I cannot discuss Z'', censored = Some False\<rparr>]"
    unfolding h
    by (simp add: rendered_page_def prompts_rendered_turn clean_what clean_xy clean_and clean_z)
  have a: "after (turns rendered_page ! 1) \<noteq> [] \<and>
           is_element (hd (after (turns rendered_page ! 1)))"
    unfolding t1 by (simp add: rendered_turn_def)
  have s: "storage_item rendered_page \<noteq> Unparseable" by (simp add: rendered_page_def)
  have i: "inner (turns rendered_page ! 1) = [Elem [] [TextNode (js ''I cannot discuss Z 1/2'')]]"
    unfolding t1 by (simp add: rendered_turn_def)
  have it: "innerText_of [Elem [] [TextNode (js ''I cannot discuss Z 1/2'')]]
              = js ''I cannot discuss Z 1/2''"
    by (simp add: innerText_of_def)
  from restored_branch [OF om r inv, of "js ''abc-123''", unfolded tk]
    a chat_id_rendered_page s
  have "inner (turns (fst (on_response pend ?resp pg1)) ! 1) = inner (turns rendered_page ! 1) \<and>
        banners (turns (fst (on_response pend ?resp pg1)) ! 1) = 0 \<and>
        snd (on_response pend ?resp pg1) = None \<and>
        restoreHistory (Some (js ''abc-123'')) (storage_item (fst (on_response pend ?resp pg1))) =
          Inr (History (butlast (req_history rq) @
                 [\<lparr>role = Assistant, content = innerText_of (inner (turns rendered_page ! 1)),
                   censored = Some False\<rparr>]))"
    by blast
  then have "inner (turns (fst (on_response pend ?resp pg1)) ! 1)
       = [Elem [] [TextNode (js ''I cannot discuss Z 1/2'')]] \<and>
     banners (turns (fst (on_response pend ?resp pg1)) ! 1) = 0 \<and>
     snd (on_response pend ?resp pg1) = None \<and>
     restoreHistory (Some (js ''abc-123''))
        (storage_item (fst (on_response pend ?resp pg1))) =
       Inr (History [\<lparr>role = User, content = js ''What is X?'', censored = None\<rparr>,
            \<lparr>role = Assistant, content = js ''X is Y'', censored = Some False\<rparr>,
            \<lparr>role = User, content = js ''And Z?'', censored = None\<rparr>,
            \<lparr>role = Assistant, content = js ''I cannot discuss Z 1/2'',
             censored = Some False\<rparr>])"
    unfolding i it hist by simp
  moreover have "inner (turns pg1 ! 1) = set_innerText placeholder"
    using on_message_other_turns(3) [OF om] by (simp add: tk)
  moreover have "banner_inv (turns rendered_page ! 1)" using inv by (simp add: tk)
  ultimately show ?thesis using om r tk by blast
qed

text \<open>
  Claim C7. The retry button of the turn at position \<open>k\<close> of \<open>n\<close> rendered turns
  (\<open>k < n\<close>) posts an event with \<open>index = k\<close> and \<open>manual = true\<close>. The listener accepts
  it with the scope \<open>chatBubbles\<close> equal to the turns \<open>0\<close> to \<open>k\<close>; the history of the request
  is extracted from exactly these \<open>k + 1\<close> turns (two messages each); the placeholder goes
  into turn \<open>k\<close>; and whatever the response is, after the callback every turn other than
  \<open>k\<close>, in particular every later one, is as it was before the click.
\<close>

theorem manual_retry_scope:
  assumes "k < length (turns pg)"
  shows "\<exists>ev pg1 rq pend.
           retry_click k pg = Some ev \<and> ev_index ev = Primitive (Number (Finite (int k) 0)) \<and>
           ev_manual ev = Some True \<and>
           on_message N ev pg = Inr (Some (pg1, rq, pend)) \<and>
           chatBubbles N ev pg = Inr (take (Suc k) (turns pg)) \<and>
           req_history rq = concat (map (prompts (Some True)) (take (Suc k) (turns pg))) \<and>
           length (req_history rq) = 2 * Suc k \<and>
           pending_target pend = k \<and>
           inner (turns pg1 ! k) = set_innerText placeholder \<and>
           length (turns pg1) = length (turns pg) \<and>
           (\<forall>j. j \<noteq> k \<longrightarrow> turns pg1 ! j = turns pg ! j) \<and>
           (\<forall>resp.
              length (turns (fst (on_response pend resp pg1))) = length (turns pg) \<and>
              (\<forall>j. j \<noteq> k \<longrightarrow> turns (fst (on_response pend resp pg1)) ! j = turns pg ! j))"
proof -
  define ev where "ev = \<lparr>ev_source_is_window = True,
                 ev_type = js ''DEEPSEEK_CENSORSHIP'',
                 ev_content = innerText_of (inner (turns pg ! k)),
                 ev_index = Primitive (Number (Finite (int k) 0)),
                 ev_manual = Some True\<rparr>"
  have click: "retry_click k pg = Some ev"
    using assms by (simp add: retry_click_def ev_def)
  have ev: "ev_source_is_window ev" "ev_type ev = js ''DEEPSEEK_CENSORSHIP''"
    "ev_index ev = Primitive (Number (Finite (int k) 0))" "ev_manual ev = Some True"
    by (simp_all add: ev_def)
  have scope: "chatBubbles N ev pg = Inr (take (Suc k) (turns pg))"
    using assms ev(3) by (rule chatBubbles_retry)
  from assms have le: "Suc k \<le> length (turns pg)" by simp
  note acc = on_message_accepted [OF ev(1,2) scope _ le, simplified]
  define pg1 where "pg1 = pg\<lparr>turns := (turns pg)[k :=
                      (turns pg ! k)\<lparr>inner := set_innerText placeholder\<rparr>]\<rparr>"
  define rq where "rq = \<lparr>req_action = js ''checkCensorship'', req_content = ev_content ev,
             req_history = concat (map (prompts (ev_manual ev)) (take (Suc k) (turns pg))),
             req_manual = (ev_manual ev = Some True)\<rparr>"
  define pend where "pend = \<lparr>pending_target = k,
             pending_prompts = concat (map (prompts (ev_manual ev)) (take (Suc k) (turns pg))),
             pending_snapshot = inner (turns pg ! k)\<rparr>"
  have om: "on_message N ev pg = Inr (Some (pg1, rq, pend))"
    using acc by (simp add: pg1_def rq_def pend_def)
  have h: "req_history rq = concat (map (prompts (Some True)) (take (Suc k) (turns pg)))"
    by (simp add: rq_def ev(4))
  have l: "length (req_history rq) = 2 * Suc k"
    unfolding h length_prompts using le by simp
  have tk: "pending_target pend = k" by (simp add: pend_def)
  note o = on_message_other_turns [OF om, unfolded tk]
  have r: "length (turns (fst (on_response pend resp pg1))) = length (turns pg) \<and>
           (\<forall>j. j \<noteq> k \<longrightarrow> turns (fst (on_response pend resp pg1)) ! j = turns pg ! j)"
    for resp
    using on_response_other_turns [of pend resp pg1] o(1,2) unfolding tk by simp
  from click ev(3,4) om scope h l tk o r show ?thesis by blast
qed

theorem manual_retry_scope_witness:
  "0 < length (turns rendered_page) \<and>
   (\<exists>ev pg1 rq pend.
      retry_click 0 rendered_page = Some ev \<and>
      on_message (\<lambda>s. NaN) ev rendered_page = Inr (Some (pg1, rq, pend)) \<and>
      chatBubbles (\<lambda>s. NaN) ev rendered_page =
        Inr [rendered_turn (js ''What is X?'') (js ''X is Y'')] \<and>
      req_history rq =
        [\<lparr>role = User, content = js ''What is X?'', censored = None\<rparr>,
         \<lparr>role = Assistant, content = js ''X is Y'', censored = Some True\<rparr>] \<and>
      inner (turns pg1 ! 0) = set_innerText placeholder \<and>
      (\<forall>resp. turns (fst (on_response pend resp pg1)) ! 1 =
               rendered_turn (js ''And Z?'') (js ''I cannot discuss Z 1/2'')))"
proof -
  have len: "0 < length (turns rendered_page)" by (simp add: rendered_page_def)
  have tk: "take (Suc 0) (turns rendered_page) = [rendered_turn (js ''What is X?'') (js ''X is Y'')]"
    by (simp add: rendered_page_def)
  have t1: "turns rendered_page ! 1 = rendered_turn (js ''And Z?'') (js ''I cannot discuss Z 1/2'')"
    by (simp add: rendered_page_def)
  from manual_retry_scope [OF len] obtain ev pg1 rq pend
    where c: "retry_click 0 rendered_page = Some ev"
      and om: "on_message (\<lambda>s. NaN) ev rendered_page = Inr (Some (pg1, rq, pend))"
      and sc: "chatBubbles (\<lambda>s. NaN) ev rendered_page = Inr (take (Suc 0) (turns rendered_page))"
      and h: "req_history rq =
                concat (map (prompts (Some True)) (take (Suc 0) (turns rendered_page)))"
      and p: "inner (turns pg1 ! 0) = set_innerText placeholder"
      and o: "\<forall>resp. length (turns (fst (on_response pend resp pg1)))
                       = length (turns rendered_page) \<and>
                (\<forall>j. j \<noteq> 0 \<longrightarrow>
                   turns (fst (on_response pend resp pg1)) ! j = turns rendered_page ! j)"
    by blast
  have hist: "req_history rq =
        [\<lparr>role = User, content = js ''What is X?'', censored = None\<rparr>,
         \<lparr>role = Assistant, content = js ''X is Y'', censored = Some True\<rparr>]"
    unfolding h tk by (simp add: prompts_rendered_turn clean_what clean_xy)
  have "\<forall>resp. turns (fst (on_response pend resp pg1)) ! 1 =
               rendered_turn (js ''And Z?'') (js ''I cannot discuss Z 1/2'')"
    using o t1 by simp
  with c om sc hist p len show ?thesis unfolding tk by blast
qed


text \<open>What the listener makes of some indices that are not integers.\<close>

lemma plus_one_examples:
  "plus_one (Finite (- 1) (- 1)) = Finite 1 (- 1) \<and>
   ToIntegerOrInfinity (Finite 1 (- 1)) = Integral 0 \<and>
   plus_one (Finite 9007199254740991 (- 53)) = Finite 9007199254740992 (- 52) \<and>
   ToIntegerOrInfinity (Finite 9007199254740992 (- 52)) = Integral 2 \<and>
   plus_one (Finite (- 7) (- 1)) = Finite (- 5) (- 1) \<and>
   ToIntegerOrInfinity (Finite (- 5) (- 1)) = Integral (- 2)"
  by (simp add: plus_one_def round_to_double_def ToIntegerOrInfinity_def Let_def
      bit_length.simps)




section \<open>Further properties of the controller and the classifier\<close>

lemma roles_prompts:
  "map role (concat (map (prompts m) ts)) = concat (replicate (length ts) [User, Assistant])"
  by (induction ts) (simp_all add: prompts_def)

text \<open>
  The history of every request the listener sends holds two messages for each turn in
  scope, a user message followed by an assistant message.
\<close>

theorem history_alternates:
  assumes "on_message N ev pg = Inr (Some (pg1, rq, pend))"
  shows "\<exists>bubbles. chatBubbles N ev pg = Inr bubbles \<and>
           length (req_history rq) = 2 * length bubbles \<and>
           map role (req_history rq) = concat (replicate (length bubbles) [User, Assistant]) \<and>
           req_history rq \<noteq> []"
proof -
  from on_message_result [OF assms] obtain n
    where n: "0 < n" "n \<le> length (turns pg)"
      and sc: "chatBubbles N ev pg = Inr (take n (turns pg))"
      and rq: "rq = \<lparr>req_action = js ''checkCensorship'', req_content = ev_content ev,
                 req_history = concat (map (prompts (ev_manual ev)) (take n (turns pg))),
                 req_manual = (ev_manual ev = Some True)\<rparr>"
    by auto
  let ?bs = "take n (turns pg)"
  have h: "req_history rq = concat (map (prompts (ev_manual ev)) ?bs)"
    by (simp add: rq)
  from n have len: "length ?bs = n" by simp
  have l: "length (req_history rq) = 2 * length ?bs"
    unfolding h by (rule length_prompts)
  with len n(1) have e: "req_history rq \<noteq> []" by auto
  have r: "map role (req_history rq) = concat (replicate (length ?bs) [User, Assistant])"
    unfolding h by (rule roles_prompts)
  from sc l r e show ?thesis by blast
qed

theorem history_alternates_witness:
  "\<exists>pg1 rq pend.
     on_message (\<lambda>s. NaN) (detection (Primitive Undefined) None) rendered_page = Inr (Some (pg1, rq, pend)) \<and>
     length (req_history rq) = 4 \<and>
     map role (req_history rq) = [User, Assistant, User, Assistant]"
proof -
  let ?ev = "detection (Primitive Undefined) None"
  have ev: "ev_source_is_window ?ev" "ev_type ?ev = js ''DEEPSEEK_CENSORSHIP''"
    by (simp_all add: detection_def)
  have scope: "chatBubbles (\<lambda>s. NaN) ?ev rendered_page = Inr (take 2 (turns rendered_page))"
    by (simp add: chatBubbles_undefined detection_def rendered_page_def)
  have len: "(2::nat) \<le> length (turns rendered_page)" by (simp add: rendered_page_def)
  from on_message_accepted [OF ev scope _ len] obtain pg1 rq pend
    where om: "on_message (\<lambda>s. NaN) ?ev rendered_page = Inr (Some (pg1, rq, pend))"
    by simp
  have r2: "concat (replicate 2 [User, Assistant]) = [User, Assistant, User, Assistant]"
    by (simp add: numeral_2_eq_2)
  from history_alternates [OF om] obtain bs
    where b: "chatBubbles (\<lambda>s. NaN) ?ev rendered_page = Inr bs"
      and l: "length (req_history rq) = 2 * length bs"
      and r: "map role (req_history rq) = concat (replicate (length bs) [User, Assistant])"
    by blast
  from b scope have "bs = take 2 (turns rendered_page)" by simp
  then have l2: "length bs = 2" by (simp add: rendered_page_def)
  from l r have "length (req_history rq) = 4 \<and>
     map role (req_history rq) = [User, Assistant, User, Assistant]"
    unfolding l2 r2 by simp
  with om show ?thesis by auto
qed

text \<open>
  The \<open>if\<close> branch of the response callback. Let the listener accept a detection event and
  the answer carry a non-empty replacement. On a turn in the banner state the script keeps,
  whose bubble is followed by its action row, the bubble then shows the replacement, its
  container holds exactly one banner, right before the bubble, and, when the pathname holds
  a conversation id and the stored item is not corrupt, the history persisted under that id
  ends with the assistant message of the replacement, marked \<open>censored: true\<close>.
\<close>

theorem replaced_branch:
  assumes "on_message N ev pg = Inr (Some (pg1, rq, pend))"
    and "replacement_of resp = Some r"
    and "banner_inv (turns pg ! pending_target pend)"
    and "after (turns pg ! pending_target pend) \<noteq> []"
    and "is_element (hd (after (turns pg ! pending_target pend)))"
  shows "inner (turns (fst (on_response pend resp pg1)) ! pending_target pend)
           = set_innerText r \<and>
         banners (turns (fst (on_response pend resp pg1)) ! pending_target pend) = 1 \<and>
         banner_before (turns (fst (on_response pend resp pg1)) ! pending_target pend) \<and>
         (getChatIdFromUrl (location_pathname pg) = Some c \<and>
          storage_item pg \<noteq> Unparseable \<longrightarrow>
            snd (on_response pend resp pg1) = None \<and>
            restoreHistory (Some c) (storage_item (fst (on_response pend resp pg1))) =
              Inr (History (butlast (req_history rq) @
                     [\<lparr>role = Assistant, content = r, censored = Some True\<rparr>])))"
proof -
  from on_message_result [OF assms(1)] obtain n
    where n: "0 < n" "n \<le> length (turns pg)"
      and pg1: "pg1 = pg\<lparr>turns := (turns pg)[n - 1 :=
                  (turns pg ! (n - 1))\<lparr>inner := set_innerText placeholder\<rparr>]\<rparr>"
      and rq: "req_history rq = concat (map (prompts (ev_manual ev)) (take n (turns pg)))"
      and pend: "pend = \<lparr>pending_target = n - 1,
                   pending_prompts = concat (map (prompts (ev_manual ev)) (take n (turns pg))),
                   pending_snapshot = inner (turns pg ! (n - 1))\<rparr>"
    by auto
  define k where "k = n - 1"
  have tk: "pending_target pend = k" by (simp add: pend k_def)
  have pp: "pending_prompts pend = req_history rq" by (simp add: pend rq)
  have lt: "k < length (turns pg)" using n by (simp add: k_def)
  have t1: "turns pg1 = (turns pg)[k := (turns pg ! k)\<lparr>inner := set_innerText placeholder\<rparr>]"
    and p1: "location_pathname pg1 = location_pathname pg"
    and s1: "storage_item pg1 = storage_item pg"
    by (simp_all add: pg1 k_def)
  define el where "el = (turns pg ! k)\<lparr>inner := set_innerText placeholder\<rparr>"
  have el1: "turns pg1 ! k = el" using lt by (simp add: t1 el_def)
  have lt1: "k < length (turns pg1)" using lt by (simp add: t1)
  have inv: "banner_inv el"
    unfolding el_def using assms(3) [unfolded tk]
    by (rule banner_inv_inner) (rule count_set_innerText)
  have aft: "after el = after (turns pg ! k)" by (simp add: el_def)
  define w where "w = showWarning el"
  have winv: "banner_inv w" unfolding w_def using inv by (rule banner_inv_showWarning)
  have wb: "banners w = 1" "banner_before w"
    using inv banner_before_showWarning [OF inv]
    by (auto simp: w_def banners_showWarning banner_inv_def)
  have wa: "after w = after (turns pg ! k)"
    by (cases "banners el = 0") (simp_all add: w_def showWarning_cases aft)
  from assms(4,5) [unfolded tk] wa obtain t2 where t2: "appendExternalAiButton w = Inr t2"
    using appendExternalAiButton_ok [of w] by auto
  note k2 = appendExternalAiButton_keeps [OF t2]
  define t3 where "t3 = t2\<lparr>inner := set_innerText r\<rparr>"
  have t2inv: "banner_inv t2" using winv t2 by (rule banner_inv_appendExternalAiButton)
  have b3: "banners t3 = 1"
    using banner_inv_parts(1) [OF t2inv] k2(4) wb(1)
    by (simp add: t3_def banners_parts count_set_innerText)
  have bb3: "banner_before t3"
    using wb(2) k2(2) by (simp add: t3_def banner_before_def)
  define pgx where "pgx = pg1\<lparr>turns := (turns pg1)[k := t3]\<rparr>"
  define ms where "ms = butlast (req_history rq) @
                     [\<lparr>role = Assistant, content = r, censored = Some True\<rparr>]"
  have eq: "on_response pend resp pg1 = save_page ms pgx"
    using assms(2) lt1 t2 el1
    by (simp add: on_response_def Let_def tk w_def [symmetric] t3_def pgx_def ms_def pp)
  have tx: "turns pgx ! k = t3" using lt1 by (simp add: pgx_def)
  have fs: "turns (fst (save_page ms pgx)) = turns pgx"
    by (simp add: save_page_def split: sum.splits)
  have D: "inner (turns (fst (on_response pend resp pg1)) ! k) = set_innerText r"
    "banners (turns (fst (on_response pend resp pg1)) ! k) = 1"
    "banner_before (turns (fst (on_response pend resp pg1)) ! k)"
    unfolding eq fs tx using b3 bb3 by (simp_all add: t3_def)
  have P: "snd (on_response pend resp pg1) = None \<and>
          restoreHistory (Some c) (storage_item (fst (on_response pend resp pg1))) = Inr (History ms)"
    if c: "getChatIdFromUrl (location_pathname pg) = Some c"
      and h: "storage_item pg \<noteq> Unparseable"
  proof -
    have path: "location_pathname pgx = location_pathname pg"
      and item: "storage_item pgx = storage_item pg"
      by (simp_all add: pgx_def p1 s1)
    from restore_after_save [OF c h, of ms] obtain it'
      where s: "saveHistory (location_pathname pg) ms (storage_item pg) = Inr it'"
        and r: "restoreHistory (Some c) it' = Inr (History ms)"
      by blast
    from s have "save_page ms pgx = (pgx\<lparr>storage_item := it'\<rparr>, None)"
      unfolding save_page_def path item by simp
    with eq have res: "on_response pend resp pg1 = (pgx\<lparr>storage_item := it'\<rparr>, None)"
      by simp
    show ?thesis unfolding res using r by simp
  qed
  show ?thesis
    unfolding tk
  proof (intro conjI impI)
    show "inner (turns (fst (on_response pend resp pg1)) ! k) = set_innerText r" by (rule D(1))
    show "banners (turns (fst (on_response pend resp pg1)) ! k) = 1" by (rule D(2))
    show "banner_before (turns (fst (on_response pend resp pg1)) ! k)" by (rule D(3))
  next
    assume "getChatIdFromUrl (location_pathname pg) = Some c \<and> storage_item pg \<noteq> Unparseable"
    then show "snd (on_response pend resp pg1) = None" using P by blast
  next
    assume "getChatIdFromUrl (location_pathname pg) = Some c \<and> storage_item pg \<noteq> Unparseable"
    then show "restoreHistory (Some c) (storage_item (fst (on_response pend resp pg1))) =
              Inr (History (butlast (req_history rq) @
                     [\<lparr>role = Assistant, content = r, censored = Some True\<rparr>]))"
      using P unfolding ms_def by blast
  qed
qed

theorem replaced_branch_witness:
  "\<exists>pg1 rq pend.
     on_message (\<lambda>s. NaN) (detection (Primitive Undefined) None) rendered_page = Inr (Some (pg1, rq, pend)) \<and>
     replacement_of (Some \<lparr>replacement = Some (js ''Full answer.'')\<rparr>)
       = Some (js ''Full answer.'') \<and>
     pending_target pend = 1 \<and>
     inner (turns (fst (on_response pend
        (Some \<lparr>replacement = Some (js ''Full answer.'')\<rparr>) pg1)) ! 1)
       = [TextNode (js ''Full answer.'')] \<and>
     banners (turns (fst (on_response pend
        (Some \<lparr>replacement = Some (js ''Full answer.'')\<rparr>) pg1)) ! 1) = 1 \<and>
     restoreHistory (Some (js ''abc-123''))
        (storage_item (fst (on_response pend
           (Some \<lparr>replacement = Some (js ''Full answer.'')\<rparr>) pg1))) =
       Inr (History [\<lparr>role = User, content = js ''What is X?'', censored = None\<rparr>,
            \<lparr>role = Assistant, content = js ''X is Y'', censored = Some False\<rparr>,
            \<lparr>role = User, content = js ''And Z?'', censored = None\<rparr>,
            \<lparr>role = Assistant, content = js ''Full answer.'', censored = Some True\<rparr>])"
proof -
  let ?ev = "detection (Primitive Undefined) None"
  let ?resp = "Some \<lparr>replacement = Some (js ''Full answer.'')\<rparr>"
  have ev: "ev_source_is_window ?ev" "ev_type ?ev = js ''DEEPSEEK_CENSORSHIP''"
    "ev_manual ?ev = None"
    by (simp_all add: detection_def)
  have scope: "chatBubbles (\<lambda>s. NaN) ?ev rendered_page = Inr (take 2 (turns rendered_page))"
    by (simp add: chatBubbles_undefined detection_def rendered_page_def)
  have len: "(2::nat) \<le> length (turns rendered_page)" by (simp add: rendered_page_def)
  from on_message_accepted [OF ev(1,2) scope _ len] obtain pg1 rq pend
    where om: "on_message (\<lambda>s. NaN) ?ev rendered_page = Inr (Some (pg1, rq, pend))"
      and tk: "pending_target pend = 1"
      and h: "req_history rq = concat (map (prompts None) (take 2 (turns rendered_page)))"
    by (simp add: ev(3))
  have ne: "js ''Full answer.'' \<noteq> []" by (simp add: js_def)
  then have r: "replacement_of ?resp = Some (js ''Full answer.'')"
    by (simp add: replacement_of_def truthy_def)
  have t1: "turns rendered_page ! 1 = rendered_turn (js ''And Z?'') (js ''I cannot discuss Z 1/2'')"
    by (simp add: rendered_page_def)
  have inv: "banner_inv (turns rendered_page ! pending_target pend)"
    unfolding tk t1 by (rule banner_inv_rendered_turn)
  have a: "after (turns rendered_page ! pending_target pend) \<noteq> []"
    "is_element (hd (after (turns rendered_page ! pending_target pend)))"
    unfolding tk t1 by (simp_all add: rendered_turn_def)
  have hist: "butlast (req_history rq) =
       [\<lparr>role = User, content = js ''What is X?'', censored = None\<rparr>,
        \<lparr>role = Assistant, content = js ''X is Y'', censored = Some False\<rparr>,
        \<lparr>role = User, content = js ''And Z?'', censored = None\<rparr>]"
    unfolding h
    by (simp add: rendered_page_def prompts_rendered_turn clean_what clean_xy clean_and clean_z)
  have s: "storage_item rendered_page \<noteq> Unparseable" by (simp add: rendered_page_def)
  have si: "set_innerText (js ''Full answer.'') = [TextNode (js ''Full answer.'')]"
    using ne by (simp add: set_innerText_def)
  from replaced_branch [OF om r inv a, of "js ''abc-123''", unfolded tk hist si]
    chat_id_rendered_page s
  have "inner (turns (fst (on_response pend ?resp pg1)) ! 1) = [TextNode (js ''Full answer.'')] \<and>
     banners (turns (fst (on_response pend ?resp pg1)) ! 1) = 1 \<and>
     restoreHistory (Some (js ''abc-123'')) (storage_item (fst (on_response pend ?resp pg1))) =
       Inr (History [\<lparr>role = User, content = js ''What is X?'', censored = None\<rparr>,
            \<lparr>role = Assistant, content = js ''X is Y'', censored = Some False\<rparr>,
            \<lparr>role = User, content = js ''And Z?'', censored = None\<rparr>,
            \<lparr>role = Assistant, content = js ''Full answer.'', censored = Some True\<rparr>])"
    by simp
  with om r tk show ?thesis by auto
qed

text \<open>
  The state of the banners is an invariant of the controller: when every turn of the page
  has no banner in its container, or a single one right before its bubble, the same is
  true after the listener has set the placeholder, and again after the response callback,
  whatever the response.
\<close>

theorem controller_keeps_banner_inv:
  assumes "list_all banner_inv (turns pg)"
    and "on_message N ev pg = Inr (Some (pg1, rq, pend))"
  shows "list_all banner_inv (turns pg1) \<and>
         (\<forall>resp. list_all banner_inv (turns (fst (on_response pend resp pg1))))"
  using on_message_banner_inv [OF assms] on_response_banner_inv [of pg1 pend] by simp

theorem controller_keeps_banner_inv_witness:
  "list_all banner_inv (turns rendered_page) \<and>
   (\<exists>pg1 rq pend.
      on_message (\<lambda>s. NaN) (detection (Primitive Undefined) None) rendered_page = Inr (Some (pg1, rq, pend)) \<and>
      list_all banner_inv (turns pg1) \<and>
      list_all banner_inv (turns (fst (on_response pend
         (Some \<lparr>replacement = Some (js ''Full answer.'')\<rparr>) pg1))))"
proof -
  let ?ev = "detection (Primitive Undefined) None"
  have ev: "ev_source_is_window ?ev" "ev_type ?ev = js ''DEEPSEEK_CENSORSHIP''"
    by (simp_all add: detection_def)
  have scope: "chatBubbles (\<lambda>s. NaN) ?ev rendered_page = Inr (take 2 (turns rendered_page))"
    by (simp add: chatBubbles_undefined detection_def rendered_page_def)
  have len: "(2::nat) \<le> length (turns rendered_page)" by (simp add: rendered_page_def)
  from on_message_accepted [OF ev scope _ len] obtain pg1 rq pend
    where om: "on_message (\<lambda>s. NaN) ?ev rendered_page = Inr (Some (pg1, rq, pend))"
    by simp
  have inv: "list_all banner_inv (turns rendered_page)"
    by (simp add: rendered_page_def banner_inv_rendered_turn)
  from controller_keeps_banner_inv [OF inv om] inv om show ?thesis by auto
qed

text \<open>
  The classifier on the two examples of the specification: a refusal is flagged, an
  ordinary answer is not.
\<close>

theorem isCensored_examples:
  "isCensored (js ''I'm sorry, I cannot help with that'') \<and>
   \<not> isCensored (js ''Paris is the capital of France'')"
  using isCensored_refusal isCensored_plain by simp

text \<open>
  The request a manual retry really sends. On a one-turn conversation whose answer is an
  ordinary one, activating the retry button posts the event, and the listener turns it
  into the request with \<open>manual: true\<close> and the answer marked \<open>censored: true\<close>; the
  echoed answer is a non-empty replacement, so the callback takes its \<open>if\<close> branch.
\<close>

lemma clean_capital:
  "cleanText (trim (js ''What is the capital of France?'')) = js ''What is the capital of France?''"
  by (simp add: clean_ev)

lemma clean_paris:
  "cleanText (js ''Paris is the capital of France'') = js ''Paris is the capital of France''"
  by (simp add: clean_ev)

lemma manual_retry_request:
  "\<exists>ev pg1 pend.
     retry_click 0
       \<lparr>turns = [rendered_turn (js ''What is the capital of France?'')
                  (js ''Paris is the capital of France'')],
        location_pathname = js ''/a/chat/s/abc-123'', storage_item = NoItem\<rparr> = Some ev \<and>
     on_message (\<lambda>s. NaN) ev
       \<lparr>turns = [rendered_turn (js ''What is the capital of France?'')
                  (js ''Paris is the capital of France'')],
        location_pathname = js ''/a/chat/s/abc-123'', storage_item = NoItem\<rparr> =
       Inr (Some (pg1,
         \<lparr>req_action = js ''checkCensorship'',
          req_content = js ''Paris is the capital of France'',
          req_history =
            [\<lparr>role = User, content = js ''What is the capital of France?'', censored = None\<rparr>,
             \<lparr>role = Assistant, content = js ''Paris is the capital of France'',
              censored = Some True\<rparr>],
          req_manual = True\<rparr>, pend)) \<and>
     pending_target pend = 0 \<and>
     replacement_of (Some \<lparr>replacement = Some (js ''Paris is the capital of France'')\<rparr>)
       = Some (js ''Paris is the capital of France'')"
proof -
  let ?t = "rendered_turn (js ''What is the capital of France?'')
                  (js ''Paris is the capital of France'')"
  let ?pg = "\<lparr>turns = [?t], location_pathname = js ''/a/chat/s/abc-123'',
              storage_item = NoItem\<rparr>"
  let ?ev = "\<lparr>ev_source_is_window = True, ev_type = js ''DEEPSEEK_CENSORSHIP'',
              ev_content = js ''Paris is the capital of France'',
              ev_index = Primitive (Number (Finite 0 0)), ev_manual = Some True\<rparr>"
  let ?resp = "Some \<lparr>replacement = Some (js ''Paris is the capital of France'')\<rparr>"
  have click: "retry_click 0 ?pg = Some ?ev"
    by (simp add: retry_click_def innerText_rendered_turn)
  have scope: "chatBubbles (\<lambda>s. NaN) ?ev ?pg = Inr (take 1 (turns ?pg))"
    by (simp add: chatBubbles_def slice_end_integer)
  from on_message_accepted [of ?ev "\<lambda>s. NaN" ?pg 1, OF _ _ scope] obtain pg1 pend
    where om: "on_message (\<lambda>s. NaN) ?ev ?pg = Inr (Some (pg1,
         \<lparr>req_action = js ''checkCensorship'',
          req_content = js ''Paris is the capital of France'',
          req_history =
            [\<lparr>role = User, content = js ''What is the capital of France?'', censored = None\<rparr>,
             \<lparr>role = Assistant, content = js ''Paris is the capital of France'',
              censored = Some True\<rparr>],
          req_manual = True\<rparr>, pend))"
      and tk: "pending_target pend = 0"
    by (simp add: prompts_rendered_turn clean_capital clean_paris)
  have ne: "js ''Paris is the capital of France'' \<noteq> []" by (simp add: js_def)
  then have r: "replacement_of ?resp = Some (js ''Paris is the capital of France'')"
    by (simp add: replacement_of_def truthy_def)
  from click om tk r show ?thesis by blast
qed

end
